theory Spec2Isabelle
  imports
    Complex_Main
    "HOL-Library.Multiset"
    "HOL-Library.Sublist"
    "HOL-Library.Stream"
    "HOL-Library.Char_ord"
    "HOL-Library.List_Lexorder"
    "HOL-Library.Monad_Syntax"
begin

section \<open>Data model (types.ts)\<close>

text \<open>
  JavaScript numbers that the program only ever uses as counters (scores, question numbers,
  the processed total) are natural numbers; fractions (confidence, progress, the values of
  \<^verbatim>\<open>Math.random()\<close>) are reals, so the rounding of IEEE doubles is abstracted. Time values
  are integers: milliseconds since the epoch, as in a JavaScript \<^verbatim>\<open>Date\<close>.
\<close>

datatype AppView = upload | processing | results | analytics

datatype FileStatus =
  pending | uploading | preprocessing | detecting | scoring | complete | error

text \<open>An \<^verbatim>\<open>OMRFile\<close>; the browser's \<^verbatim>\<open>File\<close> handle is opaque and is left out.\<close>

record OMRFile =
  file_id :: string
  preview :: string
  file_progress :: real
  file_status :: FileStatus

datatype SectionName = Data_Analytics | AI_ML | Data_Science | Generative_AI | Statistics

datatype ExamSet = Set_A | Set_B | Set_C | Set_D

datatype ResultStatus = Complete | Needs_Review

record AnswerDetail =
  question :: nat
  studentAnswer :: string
  correctAnswer :: string
  isCorrect :: bool

text \<open>
  The field \<^verbatim>\<open>processingDate\<close> is declared as a \<^verbatim>\<open>Date\<close>, but a result that came
  back from \<^verbatim>\<open>JSON.parse\<close> carries a string there; the program wraps most uses in
  \<^verbatim>\<open>new Date(...)\<close>, which accepts both. The run-time value is therefore one of two forms.
\<close>

datatype DateValue = DateObj int | DateStr string

text \<open>
  \<^verbatim>\<open>sectionScores\<close> starts as the empty object and receives one key per section, so it is
  a map. The field \<^verbatim>\<open>id\<close> is called \<open>result_id\<close> here.
\<close>

record StudentResult =
  result_id :: string
  studentId :: string
  examSet :: ExamSet
  sectionScores :: "SectionName \<rightharpoonup> nat"
  totalScore :: nat
  confidence :: real
  status :: ResultStatus
  answers :: "AnswerDetail list"
  originalImage :: string
  processingDate :: DateValue

section \<open>The JavaScript platform\<close>

text \<open>
  Library functions of the JavaScript run time whose results depend on the calendar, the
  local time zone, number formatting or the Unicode tables are parameters of the model.
  A \<open>string\<close> is the list of the code units of a JavaScript string.
\<close>

record platform =
  toISOString :: "int \<Rightarrow> string"
    \<comment> \<open>\<^verbatim>\<open>Date.prototype.toISOString\<close> of a valid time value\<close>
  Date_parse :: "string \<Rightarrow> int option"
    \<comment> \<open>the time value of \<^verbatim>\<open>new Date(s)\<close>; \<open>None\<close> is an invalid date (NaN)\<close>
  startOfLocalDay :: "int \<Rightarrow> int"
    \<comment> \<open>the time value after \<^verbatim>\<open>setHours(0, 0, 0, 0)\<close>\<close>
  daysBefore :: "int \<Rightarrow> int \<Rightarrow> int"
    \<comment> \<open>the time value after \<^verbatim>\<open>d.setDate(d.getDate() - k)\<close>\<close>
  toFixed3 :: "real \<Rightarrow> string"
    \<comment> \<open>\<^verbatim>\<open>Number.prototype.toFixed(3)\<close>\<close>
  Number_of_string :: "string \<Rightarrow> real option"
    \<comment> \<open>\<^verbatim>\<open>ToNumber\<close> of a string; \<open>None\<close> is NaN\<close>
  toLowerCase :: "string \<Rightarrow> string"
    \<comment> \<open>\<^verbatim>\<open>String.prototype.toLowerCase\<close>\<close>

text \<open>
  \<^verbatim>\<open>Math.random()\<close> reads the next value of a stream of draws and advances it.
\<close>

type_synonym rng = "real stream"

definition Math_random :: "rng \<Rightarrow> real \<times> rng" where
  "Math_random g = (shd g, stl g)"

definition fromCharCode :: "nat \<Rightarrow> string" where
  "fromCharCode n = [char_of n]"

fun string_of_nat :: "nat \<Rightarrow> string" where
  "string_of_nat n =
     (if n < 10 then [char_of (48 + n)]
      else string_of_nat (n div 10) @ [char_of (48 + n mod 10)])"

declare string_of_nat.simps [simp del]

definition string_of_int :: "int \<Rightarrow> string" where
  "string_of_int i =
     (if i < 0 then CHR ''-'' # string_of_nat (nat (- i)) else string_of_nat (nat i))"

text \<open>
  \<^verbatim>\<open>Array.prototype.indexOf\<close>: the position of the first occurrence. JavaScript answers
  \<open>-1\<close> for an absent element; the program only looks up elements of the list itself,
  and the model answers the length of the list for an absent one.
\<close>

fun indexOf :: "'a list \<Rightarrow> 'a \<Rightarrow> nat" where
  "indexOf [] x = 0"
| "indexOf (y # ys) x = (if y = x then 0 else Suc (indexOf ys x))"

section \<open>The mock data generator\<close>

definition MOCK_STUDENT_IDS :: "string list" where
  "MOCK_STUDENT_IDS =
     [''ST001'', ''ST002'', ''ST003'', ''ST004'', ''ST005'',
      ''ST006'', ''ST007'', ''ST008'', ''ST009'', ''ST010'']"

definition SECTIONS :: "SectionName list" where
  "SECTIONS = [Data_Analytics, AI_ML, Data_Science, Generative_AI, Statistics]"

definition CORRECT_ANSWERS :: "string list" where
  "CORRECT_ANSWERS = map (\<lambda>i. fromCharCode (65 + i mod 4)) [0..<50]"

text \<open>
  One turn of the inner \<^verbatim>\<open>for\<close> loop of \<^verbatim>\<open>generateMockResult\<close>: the state is the
  running section score, the answers pushed so far and the random source.
\<close>

definition answer_step ::
  "SectionName \<Rightarrow> nat \<Rightarrow> nat \<times> AnswerDetail list \<times> rng \<Rightarrow> nat \<times> AnswerDetail list \<times> rng"
where
  "answer_step section i = (\<lambda>(sectionScore, answers, g).
     let questionNum = indexOf SECTIONS section * 10 + i;
         (r, g') = Math_random g;
         isCorrect = (r > 0.3)
     in (if isCorrect then sectionScore + 2 else sectionScore,
         answers @
           [\<lparr> question = questionNum + 1,
              studentAnswer =
                (if isCorrect then CORRECT_ANSWERS ! questionNum
                 else fromCharCode (65 + (questionNum + 1) mod 4)),
              correctAnswer = CORRECT_ANSWERS ! questionNum,
              isCorrect = isCorrect \<rparr>],
         g'))"

text \<open>The mutable locals of \<^verbatim>\<open>generateMockResult\<close> that the \<^verbatim>\<open>forEach\<close> body updates.\<close>

record gen_state =
  gs_sectionScores :: "SectionName \<rightharpoonup> nat"
  gs_totalScore :: nat
  gs_answers :: "AnswerDetail list"
  gs_rng :: rng

definition section_step :: "SectionName \<Rightarrow> gen_state \<Rightarrow> gen_state" where
  "section_step section st =
     (let (sectionScore, answers', g') =
            fold (answer_step section) [0..<10] (0, gs_answers st, gs_rng st)
      in \<lparr> gs_sectionScores = (gs_sectionScores st)(section \<mapsto> sectionScore),
           gs_totalScore = gs_totalScore st + sectionScore,
           gs_answers = answers',
           gs_rng = g' \<rparr>)"

definition exam_sets :: "ExamSet list" where
  "exam_sets = [Set_A, Set_B, Set_C, Set_D]"

text \<open>
  \<^verbatim>\<open>generateMockResult(file, index)\<close>. Besides its two arguments it reads the clock
  (\<open>now\<close>, the time value of \<^verbatim>\<open>new Date()\<close>) and the random source, which it returns
  advanced by the 53 draws it makes.
\<close>

definition generateMockResult ::
  "platform \<Rightarrow> int \<Rightarrow> OMRFile \<Rightarrow> nat \<Rightarrow> rng \<Rightarrow> StudentResult \<times> rng"
where
  "generateMockResult plat now file index g0 =
     (let (r1, g1) = Math_random g0;
          studentId = MOCK_STUDENT_IDS ! (index mod length MOCK_STUDENT_IDS)
                        @ ''-'' @ string_of_int (\<lfloor>r1 * 900\<rfloor> + 100);
          st = fold section_step SECTIONS
                 \<lparr> gs_sectionScores = Map.empty, gs_totalScore = 0,
                   gs_answers = [], gs_rng = g1 \<rparr>;
          (r2, g2) = Math_random (gs_rng st);
          confidence = r2 * 0.2 + 0.8;
          needsReview = (confidence < 0.9);
          (r3, g3) = Math_random g2;
          randomDaysAgo = \<lfloor>r3 * 30\<rfloor>;
          processingDate = DateObj (daysBefore plat now randomDaysAgo)
      in (\<lparr> result_id = file_id file,
            studentId = studentId,
            examSet = exam_sets ! (index mod 4),
            sectionScores = gs_sectionScores st,
            totalScore = gs_totalScore st,
            confidence = confidence,
            status = (if needsReview then Needs_Review else Complete),
            answers = gs_answers st,
            originalImage =
              ''https://picsum.photos/seed/'' @ studentId @ ''/800/1100'',
            processingDate = processingDate \<rparr>,
          g3))"

section \<open>The results view\<close>

datatype StatusFilter = Filter_All | Filter_Only ResultStatus

text \<open>The keys that the column headers of the table pass to \<^verbatim>\<open>requestSort\<close>.\<close>

datatype SortKey =
  key_studentId | key_totalScore | key_status | key_processingDate | key_confidence | key_examSet

datatype Direction = asc | desc

text \<open>
  The state of \<^verbatim>\<open>ResultsView\<close> that filtering, sorting, paging and export read
  (\<^verbatim>\<open>useState\<close> cells; \<open>None\<close> is a \<^verbatim>\<open>null\<close> sort configuration).
\<close>

record ResultsViewState =
  sortConfig :: "(SortKey \<times> Direction) option"
  searchTerm :: string
  statusFilter :: StatusFilter
  currentPage :: int
  exportStatusFilter :: StatusFilter
  exportStartDate :: string
  exportEndDate :: string

definition initialResultsViewState :: ResultsViewState where
  "initialResultsViewState =
     \<lparr> sortConfig = Some (key_totalScore, desc), searchTerm = [], statusFilter = Filter_All,
       currentPage = 1, exportStatusFilter = Filter_All, exportStartDate = [],
       exportEndDate = [] \<rparr>"

subsection \<open>Filtering\<close>

text \<open>\<^verbatim>\<open>s.includes(t)\<close>: \<open>t\<close> occurs in \<open>s\<close> as a contiguous substring.\<close>

definition str_includes :: "string \<Rightarrow> string \<Rightarrow> bool" where
  "str_includes s t = sublist t s"

definition status_passes :: "StatusFilter \<Rightarrow> ResultStatus \<Rightarrow> bool" where
  "status_passes f s = (case f of Filter_All \<Rightarrow> True | Filter_Only t \<Rightarrow> s = t)"

definition filteredResults ::
  "platform \<Rightarrow> StudentResult list \<Rightarrow> ResultsViewState \<Rightarrow> StudentResult list"
where
  "filteredResults plat rs st =
     filter (\<lambda>r. status_passes (statusFilter st) (status r))
       (filter (\<lambda>r. str_includes (toLowerCase plat (studentId r))
                                 (toLowerCase plat (searchTerm st))) rs)"

subsection \<open>Sorting\<close>

text \<open>The values that the sortable columns hold at run time.\<close>

datatype jsval = JSNum real | JSStr string | JSDate int

definition status_string :: "ResultStatus \<Rightarrow> string" where
  "status_string s = (case s of Complete \<Rightarrow> ''Complete'' | Needs_Review \<Rightarrow> ''Needs Review'')"

definition examSet_string :: "ExamSet \<Rightarrow> string" where
  "examSet_string e =
     (case e of Set_A \<Rightarrow> ''A'' | Set_B \<Rightarrow> ''B'' | Set_C \<Rightarrow> ''C'' | Set_D \<Rightarrow> ''D'')"

text \<open>The property read \<^verbatim>\<open>a[sortConfig.key]\<close>.\<close>

definition field :: "SortKey \<Rightarrow> StudentResult \<Rightarrow> jsval" where
  "field k r =
     (case k of
        key_studentId \<Rightarrow> JSStr (studentId r)
      | key_totalScore \<Rightarrow> JSNum (real (totalScore r))
      | key_status \<Rightarrow> JSStr (status_string (status r))
      | key_processingDate \<Rightarrow>
          (case processingDate r of DateObj t \<Rightarrow> JSDate t | DateStr s \<Rightarrow> JSStr s)
      | key_confidence \<Rightarrow> JSNum (confidence r)
      | key_examSet \<Rightarrow> JSStr (examSet_string (examSet r)))"

definition toNumber :: "platform \<Rightarrow> jsval \<Rightarrow> real option" where
  "toNumber plat v =
     (case v of
        JSNum x \<Rightarrow> Some x
      | JSDate t \<Rightarrow> Some (real_of_int t)
      | JSStr s \<Rightarrow> Number_of_string plat s)"

text \<open>
  The operator \<^verbatim>\<open><\<close> of JavaScript: two strings are compared as strings, by their code
  units; any other pair is compared as numbers, and a comparison with NaN is false.
  \<^verbatim>\<open>a > b\<close> is \<open>js_lt plat b a\<close>.
\<close>

definition js_lt :: "platform \<Rightarrow> jsval \<Rightarrow> jsval \<Rightarrow> bool" where
  "js_lt plat a b =
     (case (a, b) of
        (JSStr s, JSStr t) \<Rightarrow> s < t
      | _ \<Rightarrow>
          (case (toNumber plat a, toNumber plat b) of
             (Some x, Some y) \<Rightarrow> x < y
           | _ \<Rightarrow> False))"

text \<open>The comparator that \<^verbatim>\<open>sortedResults\<close> passes to \<^verbatim>\<open>sort\<close>.\<close>

definition compareResults ::
  "platform \<Rightarrow> SortKey \<times> Direction \<Rightarrow> StudentResult \<Rightarrow> StudentResult \<Rightarrow> int"
where
  "compareResults plat cfg a b =
     (let aValue = field (fst cfg) a; bValue = field (fst cfg) b
      in if js_lt plat aValue bValue then (if snd cfg = asc then - 1 else 1)
         else if js_lt plat bValue aValue then (if snd cfg = asc then 1 else - 1)
         else 0)"

text \<open>
  \<^verbatim>\<open>Array.prototype.sort(comparefn)\<close> is a stable sort (ECMAScript 2019). For a
  consistent comparator every stable sort gives the same list, the one of this insertion
  sort: each element is put before the first element that it does not follow. For an
  inconsistent comparator ECMAScript leaves the order to the implementation, and this
  function is one such implementation.
\<close>

fun insert_by :: "('a \<Rightarrow> 'a \<Rightarrow> int) \<Rightarrow> 'a \<Rightarrow> 'a list \<Rightarrow> 'a list" where
  "insert_by cmp x [] = [x]"
| "insert_by cmp x (y # ys) = (if cmp x y \<le> 0 then x # y # ys else y # insert_by cmp x ys)"

definition Array_sort :: "('a \<Rightarrow> 'a \<Rightarrow> int) \<Rightarrow> 'a list \<Rightarrow> 'a list" where
  "Array_sort cmp xs = foldr (insert_by cmp) xs []"

definition sortedResults ::
  "platform \<Rightarrow> StudentResult list \<Rightarrow> ResultsViewState \<Rightarrow> StudentResult list"
where
  "sortedResults plat rs st =
     (let sortableItems = filteredResults plat rs st
      in case sortConfig st of
           None \<Rightarrow> sortableItems
         | Some cfg \<Rightarrow> Array_sort (compareResults plat cfg) sortableItems)"

definition requestSort :: "SortKey \<Rightarrow> ResultsViewState \<Rightarrow> ResultsViewState" where
  "requestSort key st =
     (let direction =
            (case sortConfig st of
               Some (k, d) \<Rightarrow> if k = key \<and> d = asc then desc else asc
             | None \<Rightarrow> asc)
      in st\<lparr>sortConfig := Some (key, direction)\<rparr>)"

subsection \<open>Pagination\<close>

definition RESULTS_PER_PAGE :: int where
  "RESULTS_PER_PAGE = 10"

text \<open>
  \<^verbatim>\<open>Array.prototype.slice(start, end)\<close>: a negative index counts from the end, and both
  indices are clamped to the array.
\<close>

definition js_slice :: "'a list \<Rightarrow> int \<Rightarrow> int \<Rightarrow> 'a list" where
  "js_slice xs start end' =
     (let len = int (length xs);
          k = (if start < 0 then max (len + start) 0 else min start len);
          final = (if end' < 0 then max (len + end') 0 else min end' len)
      in take (nat (final - k)) (drop (nat k) xs))"

definition paginatedResults ::
  "platform \<Rightarrow> StudentResult list \<Rightarrow> ResultsViewState \<Rightarrow> StudentResult list"
where
  "paginatedResults plat rs st =
     (let startIndex = (currentPage st - 1) * RESULTS_PER_PAGE
      in js_slice (sortedResults plat rs st) startIndex (startIndex + RESULTS_PER_PAGE))"

definition totalPages :: "platform \<Rightarrow> StudentResult list \<Rightarrow> ResultsViewState \<Rightarrow> int" where
  "totalPages plat rs st =
     \<lceil>real (length (sortedResults plat rs st)) / real_of_int RESULTS_PER_PAGE\<rceil>"

text \<open>The page count that the pager shows: \<^verbatim>\<open>{totalPages || 1}\<close>.\<close>

definition shownTotalPages :: "platform \<Rightarrow> StudentResult list \<Rightarrow> ResultsViewState \<Rightarrow> int" where
  "shownTotalPages plat rs st =
     (if totalPages plat rs st = 0 then 1 else totalPages plat rs st)"

text \<open>
  The handlers that write \<^verbatim>\<open>currentPage\<close>: the search box and the status buttons set it
  to 1, the two pager buttons step it (a disabled button does nothing).
\<close>

definition onSearchChange :: "string \<Rightarrow> ResultsViewState \<Rightarrow> ResultsViewState" where
  "onSearchChange v st = st\<lparr>searchTerm := v, currentPage := 1\<rparr>"

definition onStatusFilterClick :: "StatusFilter \<Rightarrow> ResultsViewState \<Rightarrow> ResultsViewState" where
  "onStatusFilterClick f st = st\<lparr>statusFilter := f, currentPage := 1\<rparr>"

definition onPreviousPage :: "ResultsViewState \<Rightarrow> ResultsViewState" where
  "onPreviousPage st =
     (if currentPage st = 1 then st else st\<lparr>currentPage := max 1 (currentPage st - 1)\<rparr>)"

definition onNextPage ::
  "platform \<Rightarrow> StudentResult list \<Rightarrow> ResultsViewState \<Rightarrow> ResultsViewState"
where
  "onNextPage plat rs st =
     (let n = totalPages plat rs st
      in if currentPage st = n \<or> n = 0 then st
         else st\<lparr>currentPage := min n (currentPage st + 1)\<rparr>)"

subsection \<open>CSV export\<close>

text \<open>\<^verbatim>\<open>new Date(v)\<close> for a stored processing date; \<open>None\<close> is an invalid date.\<close>

definition newDate :: "platform \<Rightarrow> DateValue \<Rightarrow> int option" where
  "newDate plat v = (case v of DateObj t \<Rightarrow> Some t | DateStr s \<Rightarrow> Date_parse plat s)"

text \<open>\<^verbatim>\<open>a < b\<close> on two \<^verbatim>\<open>Date\<close> objects: false when either is invalid.\<close>

definition date_lt :: "int option \<Rightarrow> int option \<Rightarrow> bool" where
  "date_lt a b = (case (a, b) of (Some x, Some y) \<Rightarrow> x < y | _ \<Rightarrow> False)"




definition section_name :: "SectionName \<Rightarrow> string" where
  "section_name s =
     (case s of
        Data_Analytics \<Rightarrow> ''Data Analytics''
      | AI_ML \<Rightarrow> ''AI/ML''
      | Data_Science \<Rightarrow> ''Data Science''
      | Generative_AI \<Rightarrow> ''Generative AI''
      | Statistics \<Rightarrow> ''Statistics'')"

text \<open>\<^verbatim>\<open>Array.prototype.join\<close>.\<close>

fun join :: "string \<Rightarrow> string list \<Rightarrow> string" where
  "join sep [] = []"
| "join sep [x] = x"
| "join sep (x # y # ys) = x @ sep @ join sep (y # ys)"





section \<open>The application state and its handlers\<close>

text \<open>The \<^verbatim>\<open>useState\<close> cells of \<^verbatim>\<open>App\<close> and the \<^verbatim>\<open>isInitialMount\<close> ref.\<close>

record AppState =
  view :: AppView
  omrFiles :: "OMRFile list"
  studentResults :: "StudentResult list"
  totalProcessed :: nat
  isInitialMount :: bool

definition initialAppState :: AppState where
  "initialAppState =
     \<lparr> view = upload, omrFiles = [], studentResults = [], totalProcessed = 0,
       isInitialMount = True \<rparr>"

definition handleProcessStart :: "OMRFile list \<Rightarrow> AppState \<Rightarrow> AppState" where
  "handleProcessStart files st = st\<lparr>omrFiles := files, view := processing\<rparr>"

definition handleProcessingComplete :: "StudentResult list \<Rightarrow> AppState \<Rightarrow> AppState" where
  "handleProcessingComplete rs st =
     st\<lparr>studentResults := studentResults st @ rs,
        totalProcessed := totalProcessed st + length rs,
        view := results\<rparr>"

definition approve :: "StudentResult \<Rightarrow> StudentResult" where
  "approve r = r\<lparr>status := Complete, confidence := 1.0\<rparr>"

definition handleApproveResult :: "string \<Rightarrow> AppState \<Rightarrow> AppState" where
  "handleApproveResult resultId st =
     st\<lparr>studentResults :=
          map (\<lambda>r. if result_id r = resultId then approve r else r) (studentResults st)\<rparr>"

text \<open>\<^verbatim>\<open>new Set(resultIds)\<close> and \<^verbatim>\<open>has\<close> are the set of the list and membership.\<close>

definition handleApproveResults :: "string list \<Rightarrow> AppState \<Rightarrow> AppState" where
  "handleApproveResults resultIds st =
     (let idsToUpdate = set resultIds
      in st\<lparr>studentResults :=
             map (\<lambda>r. if result_id r \<in> idsToUpdate then approve r else r) (studentResults st)\<rparr>)"

definition handleDeleteResults :: "string list \<Rightarrow> AppState \<Rightarrow> AppState" where
  "handleDeleteResults resultIds st =
     (let idsToDelete = set resultIds
      in st\<lparr>studentResults :=
             filter (\<lambda>r. \<not> result_id r \<in> idsToDelete) (studentResults st)\<rparr>)"

section \<open>Persistence in localStorage\<close>

text \<open>
  A JSON text is represented by the value it denotes: \<^verbatim>\<open>JSON.stringify\<close> builds the value
  and \<^verbatim>\<open>JSON.parse\<close> of a well-formed text gives it back. Objects keep the order of their
  keys.
\<close>

datatype json =
  JNull | JBool bool | JNum real | JStr string | JArr "json list" | JObj "(string \<times> json) list"

definition encode_answer :: "AnswerDetail \<Rightarrow> json" where
  "encode_answer a =
     JObj [(''question'', JNum (real (question a))),
           (''studentAnswer'', JStr (studentAnswer a)),
           (''correctAnswer'', JStr (correctAnswer a)),
           (''isCorrect'', JBool (isCorrect a))]"

definition encode_sectionScores :: "(SectionName \<rightharpoonup> nat) \<Rightarrow> json" where
  "encode_sectionScores m =
     JObj (concat (map (\<lambda>sec. case m sec of
                                None \<Rightarrow> []
                              | Some n \<Rightarrow> [(section_name sec, JNum (real n))]) SECTIONS))"

text \<open>
  \<^verbatim>\<open>JSON.stringify\<close> writes a \<^verbatim>\<open>Date\<close> as the string of its \<^verbatim>\<open>toJSON\<close> method, which
  is \<^verbatim>\<open>toISOString\<close>; a string stays a string.
\<close>

definition encode_date :: "platform \<Rightarrow> DateValue \<Rightarrow> json" where
  "encode_date plat d = (case d of DateObj t \<Rightarrow> JStr (toISOString plat t) | DateStr s \<Rightarrow> JStr s)"

definition encode_result :: "platform \<Rightarrow> StudentResult \<Rightarrow> json" where
  "encode_result plat r =
     JObj [(''id'', JStr (result_id r)),
           (''studentId'', JStr (studentId r)),
           (''examSet'', JStr (examSet_string (examSet r))),
           (''sectionScores'', encode_sectionScores (sectionScores r)),
           (''totalScore'', JNum (real (totalScore r))),
           (''confidence'', JNum (confidence r)),
           (''status'', JStr (status_string (status r))),
           (''answers'', JArr (map encode_answer (answers r))),
           (''originalImage'', JStr (originalImage r)),
           (''processingDate'', encode_date plat (processingDate r))]"

definition stringify_results :: "platform \<Rightarrow> StudentResult list \<Rightarrow> json" where
  "stringify_results plat rs = JArr (map (encode_result plat) rs)"

text \<open>
  The program uses the parsed value as a \<^verbatim>\<open>StudentResult[]\<close> without any check. The
  functions below read a parsed value as the record it is used as; \<open>None\<close> is a value that
  is not of that shape.
\<close>

definition get_field :: "string \<Rightarrow> json \<Rightarrow> json option" where
  "get_field k j = (case j of JObj kvs \<Rightarrow> map_of kvs k | _ \<Rightarrow> None)"

definition as_nat :: "json \<Rightarrow> nat option" where
  "as_nat j =
     (case j of
        JNum x \<Rightarrow> if 0 \<le> x \<and> x = of_int \<lfloor>x\<rfloor> then Some (nat \<lfloor>x\<rfloor>) else None
      | _ \<Rightarrow> None)"

definition as_real :: "json \<Rightarrow> real option" where
  "as_real j = (case j of JNum x \<Rightarrow> Some x | _ \<Rightarrow> None)"

definition as_string :: "json \<Rightarrow> string option" where
  "as_string j = (case j of JStr s \<Rightarrow> Some s | _ \<Rightarrow> None)"

definition as_bool :: "json \<Rightarrow> bool option" where
  "as_bool j = (case j of JBool b \<Rightarrow> Some b | _ \<Rightarrow> None)"

definition as_array :: "json \<Rightarrow> json list option" where
  "as_array j = (case j of JArr js \<Rightarrow> Some js | _ \<Rightarrow> None)"

definition as_status :: "json \<Rightarrow> ResultStatus option" where
  "as_status j =
     (case j of
        JStr s \<Rightarrow> if s = ''Complete'' then Some Complete
                  else if s = ''Needs Review'' then Some Needs_Review else None
      | _ \<Rightarrow> None)"

definition as_examSet :: "json \<Rightarrow> ExamSet option" where
  "as_examSet j =
     (case j of
        JStr s \<Rightarrow> if s = ''A'' then Some Set_A else if s = ''B'' then Some Set_B
                  else if s = ''C'' then Some Set_C else if s = ''D'' then Some Set_D
                  else None
      | _ \<Rightarrow> None)"

definition as_sectionScores :: "json \<Rightarrow> (SectionName \<rightharpoonup> nat) option" where
  "as_sectionScores j =
     (case j of
        JObj kvs \<Rightarrow>
          Some (\<lambda>sec. case map_of kvs (section_name sec) of
                        None \<Rightarrow> None | Some v \<Rightarrow> as_nat v)
      | _ \<Rightarrow> None)"

definition decode_answer :: "json \<Rightarrow> AnswerDetail option" where
  "decode_answer j = do {
     q \<leftarrow> get_field ''question'' j \<bind> as_nat;
     sa \<leftarrow> get_field ''studentAnswer'' j \<bind> as_string;
     ca \<leftarrow> get_field ''correctAnswer'' j \<bind> as_string;
     ic \<leftarrow> get_field ''isCorrect'' j \<bind> as_bool;
     Some \<lparr> question = q, studentAnswer = sa, correctAnswer = ca, isCorrect = ic \<rparr>
   }"

definition decode_result :: "json \<Rightarrow> StudentResult option" where
  "decode_result j = do {
     i \<leftarrow> get_field ''id'' j \<bind> as_string;
     sid \<leftarrow> get_field ''studentId'' j \<bind> as_string;
     es \<leftarrow> get_field ''examSet'' j \<bind> as_examSet;
     ss \<leftarrow> get_field ''sectionScores'' j \<bind> as_sectionScores;
     ts \<leftarrow> get_field ''totalScore'' j \<bind> as_nat;
     c \<leftarrow> get_field ''confidence'' j \<bind> as_real;
     s \<leftarrow> get_field ''status'' j \<bind> as_status;
     ans \<leftarrow> get_field ''answers'' j \<bind> as_array \<bind> (\<lambda>js. those (map decode_answer js));
     img \<leftarrow> get_field ''originalImage'' j \<bind> as_string;
     pd \<leftarrow> get_field ''processingDate'' j \<bind> as_string;
     Some \<lparr> result_id = i, studentId = sid, examSet = es, sectionScores = ss,
            totalScore = ts, confidence = c, status = s, answers = ans,
            originalImage = img, processingDate = DateStr pd \<rparr>
   }"

definition parse_results :: "json \<Rightarrow> StudentResult list option" where
  "parse_results j = as_array j \<bind> (\<lambda>js. those (map decode_result js))"

text \<open>
  An item of \<^verbatim>\<open>localStorage\<close> is a text: a well-formed JSON text, or some other text on
  which \<^verbatim>\<open>JSON.parse\<close> throws. \<^verbatim>\<open>getItem\<close> of a missing key is \<^verbatim>\<open>null\<close> (\<open>None\<close>).
\<close>

datatype stored = JsonText json | OtherText string

type_synonym localStorage = "string \<rightharpoonup> stored"

text \<open>
  The second half of the load effect: \<^verbatim>\<open>if (savedTotal) setTotalProcessed(JSON.parse(savedTotal))\<close>.
  The flag says whether a state setter has been called with a new value, so that React
  renders again. \<open>None\<close> is a stored value that is not of the shape the program uses it as.
\<close>

definition load_total :: "localStorage \<Rightarrow> AppState \<times> bool \<Rightarrow> (AppState \<times> bool) option" where
  "load_total store = (\<lambda>(st, changed).
     case store ''totalProcessed'' of
       None \<Rightarrow> Some (st, changed)
     | Some (OtherText s) \<Rightarrow> Some (st, changed)
     | Some (JsonText j) \<Rightarrow>
         (case as_nat j of
            None \<Rightarrow> None
          | Some n \<Rightarrow> Some (st\<lparr>totalProcessed := n\<rparr>, changed \<or> n \<noteq> totalProcessed st)))"

text \<open>
  The load effect. An empty text is falsy and is skipped; on any other text that is not
  JSON \<^verbatim>\<open>JSON.parse\<close> throws, and the \<^verbatim>\<open>catch\<close> leaves the rest of the effect undone.
\<close>

definition load_effect :: "localStorage \<Rightarrow> AppState \<Rightarrow> (AppState \<times> bool) option" where
  "load_effect store st =
     (case store ''studentResults'' of
        None \<Rightarrow> load_total store (st, False)
      | Some (OtherText s) \<Rightarrow> if s = [] then load_total store (st, False) else Some (st, False)
      | Some (JsonText j) \<Rightarrow>
          (case parse_results j of
             None \<Rightarrow> None
           | Some rs \<Rightarrow> load_total store (st\<lparr>studentResults := rs\<rparr>, True)))"

text \<open>The save effect (\<^verbatim>\<open>setItem\<close> is taken to succeed).\<close>

definition save_effect :: "platform \<Rightarrow> AppState \<Rightarrow> localStorage \<Rightarrow> AppState \<times> localStorage" where
  "save_effect plat st store =
     (if isInitialMount st then (st\<lparr>isInitialMount := False\<rparr>, store)
      else (st, store(''studentResults'' \<mapsto> JsonText (stringify_results plat (studentResults st)),
                      ''totalProcessed'' \<mapsto> JsonText (JNum (real (totalProcessed st))))))"

text \<open>
  Mounting \<^verbatim>\<open>App\<close>: after the first render both effects run in order, on the initial state;
  the state that the load effect has set is rendered next, and the save effect runs again
  because its dependencies have changed.
\<close>

definition mount :: "platform \<Rightarrow> localStorage \<Rightarrow> (AppState \<times> localStorage) option" where
  "mount plat store =
     (case load_effect store initialAppState of
        None \<Rightarrow> None
      | Some (loaded, changed) \<Rightarrow>
          (let (st1, store1) = save_effect plat initialAppState store;
               st2 = loaded\<lparr>isInitialMount := isInitialMount st1\<rparr>
           in Some (if changed then save_effect plat st2 store1 else (st2, store1))))"

text \<open>
  A handler that replaces \<^verbatim>\<open>studentResults\<close> (each of them builds a new array) makes React
  render again and run the save effect.
\<close>

definition update :: "platform \<Rightarrow> (AppState \<Rightarrow> AppState) \<Rightarrow> AppState \<times> localStorage \<Rightarrow> AppState \<times> localStorage" where
  "update plat handler = (\<lambda>(st, store). save_effect plat (handler st) store)"

section \<open>The simulated processing pipeline\<close>

text \<open>
  What the effect of \<^verbatim>\<open>ProcessingDashboard\<close> changes while it runs: the component state
  \<^verbatim>\<open>processedFiles\<close>, the local array \<^verbatim>\<open>generatedResults\<close> and the random source.
\<close>

record ProcState =
  processedFiles :: "OMRFile list"
  generatedResults :: "StudentResult list"
  ps_rng :: rng

text \<open>The initial value of \<^verbatim>\<open>processedFiles\<close>.\<close>

definition initialProcessedFiles :: "OMRFile list \<Rightarrow> OMRFile list" where
  "initialProcessedFiles files = map (\<lambda>f. f\<lparr>file_status := uploading\<rparr>) files"

text \<open>
  \<^verbatim>\<open>prev.map((file, i) => i === index ? { ...file, progress, status } : file)\<close>
\<close>

definition setFileProgress :: "nat \<Rightarrow> real \<Rightarrow> FileStatus \<Rightarrow> OMRFile list \<Rightarrow> OMRFile list" where
  "setFileProgress index p s prev =
     map (\<lambda>(i, file). if i = index then file\<lparr>file_progress := p, file_status := s\<rparr> else file)
       (enumerate 0 prev)"

definition stages_of :: "bool \<Rightarrow> FileStatus list" where
  "stages_of isError =
     (if isError then [preprocessing, detecting, error]
      else [preprocessing, detecting, scoring, complete])"

text \<open>
  \<^verbatim>\<open>processFile\<close> and its inner \<^verbatim>\<open>updateProgress\<close> call each other through timers. The
  chain of timer callbacks may go on for ever (a source of draws that are all 0 never moves
  the progress), so both functions take fuel: one unit per callback, and \<open>None\<close> when it
  runs out. \<open>files\<close> is the \<^verbatim>\<open>processedFiles\<close> of the first render, which the closure of
  the effect keeps; \<open>clock index\<close> is the time at which file \<open>index\<close> completes. The final
  state is the one in which \<^verbatim>\<open>onProcessingComplete(generatedResults)\<close> is scheduled.
\<close>

fun processFile ::
  "nat \<Rightarrow> platform \<Rightarrow> (nat \<Rightarrow> int) \<Rightarrow> OMRFile list \<Rightarrow> nat \<Rightarrow> ProcState \<Rightarrow> ProcState option"
and updateProgress ::
  "nat \<Rightarrow> platform \<Rightarrow> (nat \<Rightarrow> int) \<Rightarrow> OMRFile list \<Rightarrow> nat \<Rightarrow> FileStatus list \<Rightarrow>
     nat \<Rightarrow> real \<Rightarrow> ProcState \<Rightarrow> ProcState option"
where
  "processFile 0 plat clock files index st = None"
| "processFile (Suc fuel) plat clock files index st =
     (if index \<ge> length files then Some st
      else
        (let (r, g) = Math_random (ps_rng st);
             isError = (r < 0.1);
             stages = stages_of isError
         in updateProgress fuel plat clock files index stages 0 0 (st\<lparr>ps_rng := g\<rparr>)))"
| "updateProgress 0 plat clock files index stages currentStageIndex progress st = None"
| "updateProgress (Suc fuel) plat clock files index stages currentStageIndex progress st =
     (let (r, g) = Math_random (ps_rng st);
          progress1 = progress + r * 15;
          (currentStageIndex', progress') =
            (if progress1 \<ge> 100
             then (if currentStageIndex < length stages - 1
                   then (currentStageIndex + 1, 0)
                   else (currentStageIndex, 100))
             else (currentStageIndex, progress1));
          stage = stages ! currentStageIndex';
          st1 = st\<lparr>processedFiles := setFileProgress index progress' stage (processedFiles st),
                  ps_rng := g\<rparr>
      in if stage = complete \<or> stage = error
         then
           (if stage = complete
            then
              (let (res, g') = generateMockResult plat (clock index) (files ! index) index
                                 (ps_rng st1)
               in processFile fuel plat clock files (index + 1)
                    (st1\<lparr>generatedResults := generatedResults st1 @ [res], ps_rng := g'\<rparr>))
            else processFile fuel plat clock files (index + 1) st1)
         else
           (let (delay, g'') = Math_random (ps_rng st1)
            in updateProgress fuel plat clock files index stages currentStageIndex' progress'
                 (st1\<lparr>ps_rng := g''\<rparr>)))"

text \<open>The whole effect: \<^verbatim>\<open>processFile(0)\<close> on the files that the dashboard was given.\<close>

definition run_processing ::
  "nat \<Rightarrow> platform \<Rightarrow> (nat \<Rightarrow> int) \<Rightarrow> OMRFile list \<Rightarrow> rng \<Rightarrow> ProcState option"
where
  "run_processing fuel plat clock files g =
     processFile fuel plat clock (initialProcessedFiles files) 0
       \<lparr> processedFiles = initialProcessedFiles files, generatedResults = [], ps_rng = g \<rparr>"

section \<open>The reachable states of the application\<close>

text \<open>
  A configuration is the state of \<^verbatim>\<open>App\<close> with the content of \<^verbatim>\<open>localStorage\<close>. The
  storage is empty on the first visit and is written by the application only.
\<close>

inductive reachable :: "platform \<Rightarrow> AppState \<times> localStorage \<Rightarrow> bool" for plat where
  first_visit:
    "mount plat Map.empty = Some c \<Longrightarrow> reachable plat c"
| reload:
    "reachable plat (st, store) \<Longrightarrow> mount plat store = Some c \<Longrightarrow> reachable plat c"
| process_start:
    "reachable plat (st, store) \<Longrightarrow> reachable plat (handleProcessStart files st, store)"
| processing_complete:
    "reachable plat (st, store) \<Longrightarrow>
     run_processing fuel plat clock (omrFiles st) g = Some ps \<Longrightarrow>
     reachable plat (update plat (handleProcessingComplete (generatedResults ps)) (st, store))"
| approve_result:
    "reachable plat (st, store) \<Longrightarrow>
     reachable plat (update plat (handleApproveResult resultId) (st, store))"
| approve_results:
    "reachable plat (st, store) \<Longrightarrow>
     reachable plat (update plat (handleApproveResults resultIds) (st, store))"
| delete_results:
    "reachable plat (st, store) \<Longrightarrow>
     reachable plat (update plat (handleDeleteResults resultIds) (st, store))"

section \<open>AI insights (services/geminiService.ts)\<close>

text \<open>
  The SDK \<^verbatim>\<open>@google/genai\<close> is not part of the repository; what it does is a parameter.
  The call \<^verbatim>\<open>ai.models.generateContent\<close> either resolves with a response or rejects. The
  function reads \<^verbatim>\<open>response.text\<close>, which is a string, or \<^verbatim>\<open>undefined\<close> (\<open>None\<close>) for a
  reply that carries no text. A JavaScript call returns or throws.
\<close>

datatype api_outcome = Resolves "string option" | Rejects string

datatype 'a js_result = Returns 'a | Throws string

text \<open>
  The statements of the module, which run once when it is imported: a warning for a missing
  key, then \<^verbatim>\<open>new GoogleGenAI({ apiKey: API_KEY! })\<close>, outside any \<^verbatim>\<open>try\<close>. \<open>new_client\<close>
  is the outcome of the constructor for the given key.
\<close>

definition load_module :: "(string option \<Rightarrow> unit js_result) \<Rightarrow> string option \<Rightarrow> unit js_result" where
  "load_module new_client API_KEY = new_client API_KEY"

record gemini_request =
  model :: string
  contents :: string

definition detailedResults :: "StudentResult list \<Rightarrow> json" where
  "detailedResults rs =
     JArr (map (\<lambda>r.
       JObj [(''studentId'', JStr (studentId r)),
             (''totalScore'', JNum (real (totalScore r))),
             (''sections'', encode_sectionScores (sectionScores r)),
             (''answers'',
                JArr (map (\<lambda>a. JObj [(''q'', JNum (real (question a))),
                                      (''correct'', JBool (isCorrect a))]) (answers r)))]) rs)"

definition prompt_before :: "string list" where
  "prompt_before =
     [[],
      ''    As an expert educational analyst, examine the following OMR test results for a class.'',
      ''    The total possible score is 100. The sections are 'Data Analytics', 'AI/ML', 'Data Science', 'Generative AI', and 'Statistics'.'',
      [],
      ''    Results data (includes individual question correctness):'']"

definition prompt_after :: "string list" where
  "prompt_after =
     [[],
      ''    Provide a concise, insightful analysis of the class's performance. Structure your response in Markdown with the following sections:'',
      ''    1.  **Overall Performance Summary:** A brief overview of the average score, and general pass/fail impressions.'',
      ''    2.  **Strengths:** Identify the sections or topics where students performed the best.'',
      ''    3.  **Areas for Improvement:** Pinpoint the sections or topics where students struggled the most.'',
      ''    4.  **Question Analysis:** Identify the top 3 most frequently missed questions. List them and briefly speculate why they might have been difficult.'',
      ''    5.  **Actionable Recommendations:** Suggest 2-3 specific actions instructors could take to address the identified weaknesses.'',
      [],
      ''    Keep the analysis professional, data-driven, and easy to understand.'',
      ''  '']"

text \<open>
  The template literal; \<open>pretty\<close> is \<^verbatim>\<open>JSON.stringify(v, null, 2)\<close>, the text of a JSON
  value with an indentation of two.
\<close>

definition insights_prompt :: "(json \<Rightarrow> string) \<Rightarrow> StudentResult list \<Rightarrow> string" where
  "insights_prompt pretty rs =
     join [CHR 0x0A]
       (prompt_before @ [''    '' @ pretty (detailedResults rs)] @ prompt_after)"

definition key_missing_message :: string where
  "key_missing_message =
     ''API Key not configured. Please set the API_KEY environment variable.''"

definition error_notice :: string where
  "error_notice =
     ''An error occurred while generating AI insights. Please check the console for details.''"

text \<open>
  \<^verbatim>\<open>generateAnalyticsInsights\<close>. \<open>API_KEY\<close> is \<^verbatim>\<open>process.env.API_KEY\<close> (\<open>None\<close> when it is
  undefined; the empty string is falsy too) and \<open>api\<close> is the external service. The
  result is the outcome of the promise together with the requests that were sent; the
  value of the promise is a string, or \<open>None\<close> for \<^verbatim>\<open>undefined\<close>.
\<close>

definition generateAnalyticsInsights ::
  "string option \<Rightarrow> (json \<Rightarrow> string) \<Rightarrow> (gemini_request \<Rightarrow> api_outcome) \<Rightarrow>
     StudentResult list \<Rightarrow> string option js_result \<times> gemini_request list"
where
  "generateAnalyticsInsights API_KEY pretty api rs =
     (if API_KEY = None \<or> API_KEY = Some []
      then (Returns (Some key_missing_message), [])
      else
        (let prompt = insights_prompt pretty rs;
             request = \<lparr> model = ''gemini-2.5-flash'', contents = prompt \<rparr>;
             attempt = (case api request of
                          Resolves text \<Rightarrow> Returns text
                        | Rejects e \<Rightarrow> Throws e)
         in (case attempt of
               Throws e \<Rightarrow> Returns (Some error_notice)
             | Returns text \<Rightarrow> Returns text,
             [request])))"

text \<open>
  What an importer of the module gets from a call: an exception of the module's own
  statements reaches the importer, and the function is never called.
\<close>

definition insights_service ::
  "(string option \<Rightarrow> unit js_result) \<Rightarrow> string option \<Rightarrow> (json \<Rightarrow> string) \<Rightarrow>
     (gemini_request \<Rightarrow> api_outcome) \<Rightarrow> StudentResult list \<Rightarrow>
     string option js_result \<times> gemini_request list"
where
  "insights_service new_client API_KEY pretty api rs =
     (case load_module new_client API_KEY of
        Throws e \<Rightarrow> (Throws e, [])
      | Returns u \<Rightarrow> generateAnalyticsInsights API_KEY pretty api rs)"

section \<open>A concrete platform and sample data\<close>

text \<open>
  An instance of the platform for evaluating the model on concrete inputs: the local time
  zone is UTC, a day has 86400000 milliseconds, and dates are written and read in the
  ISO format \<^verbatim>\<open>YYYY-MM-DDTHH:mm:ss.sssZ\<close> (years 0 to 9999). The conversion between day
  numbers and calendar dates is the usual one for the proleptic Gregorian calendar. The
  theorems below hold for every platform; only their instances on sample data use this
  one.
\<close>

definition days_from_civil :: "int \<Rightarrow> int \<Rightarrow> int \<Rightarrow> int" where
  "days_from_civil y m d =
     (let y' = (if m \<le> 2 then y - 1 else y);
          era = y' div 400;
          yoe = y' - era * 400;
          doy = (153 * (if m > 2 then m - 3 else m + 9) + 2) div 5 + d - 1;
          doe = yoe * 365 + yoe div 4 - yoe div 100 + doy
      in era * 146097 + doe - 719468)"

definition civil_from_days :: "int \<Rightarrow> int \<times> int \<times> int" where
  "civil_from_days z0 =
     (let z = z0 + 719468;
          era = z div 146097;
          doe = z - era * 146097;
          yoe = (doe - doe div 1460 + doe div 36524 - doe div 146096) div 365;
          doy = doe - (365 * yoe + yoe div 4 - yoe div 100);
          mp = (5 * doy + 2) div 153;
          d = doy - (153 * mp + 2) div 5 + 1;
          m = (if mp < 10 then mp + 3 else mp - 9);
          y = yoe + era * 400
      in (if m \<le> 2 then y + 1 else y, m, d))"

definition digit_char :: "nat \<Rightarrow> char" where
  "digit_char n = ''0123456789'' ! (n mod 10)"

text \<open>The last \<open>w\<close> decimal digits of \<open>n\<close>.\<close>

fun pad :: "nat \<Rightarrow> nat \<Rightarrow> string" where
  "pad 0 n = []"
| "pad (Suc w) n = pad w (n div 10) @ [digit_char n]"

definition utc_toISOString :: "int \<Rightarrow> string" where
  "utc_toISOString t =
     (let ms = nat (t mod 86400000);
          (y, m, d) = civil_from_days (t div 86400000)
      in pad 4 (nat y) @ ''-'' @ pad 2 (nat m) @ ''-'' @ pad 2 (nat d) @ ''T''
         @ pad 2 (ms div 3600000) @ '':'' @ pad 2 (ms div 60000 mod 60) @ '':''
         @ pad 2 (ms div 1000 mod 60) @ ''.'' @ pad 3 (ms mod 1000) @ ''Z'')"

definition digit_value :: "char \<Rightarrow> nat option" where
  "digit_value c =
     (if CHR ''0'' \<le> c \<and> c \<le> CHR ''9'' then Some (of_char c - 48) else None)"

fun digits_value :: "nat \<Rightarrow> string \<Rightarrow> nat option" where
  "digits_value acc [] = Some acc"
| "digits_value acc (c # cs) =
     (case digit_value c of None \<Rightarrow> None | Some v \<Rightarrow> digits_value (acc * 10 + v) cs)"

definition number_at :: "string \<Rightarrow> nat \<Rightarrow> nat \<Rightarrow> nat option" where
  "number_at s pos len =
     (if pos + len \<le> length s then digits_value 0 (take len (drop pos s)) else None)"

definition punctuation_ok :: "string \<Rightarrow> (nat \<times> char) list \<Rightarrow> bool" where
  "punctuation_ok s ps = list_all (\<lambda>(i, c). i < length s \<and> s ! i = c) ps"

text \<open>Reads \<^verbatim>\<open>YYYY-MM-DD\<close> (midnight UTC) and \<^verbatim>\<open>YYYY-MM-DDTHH:mm:ss.sssZ\<close>.\<close>

definition utc_Date_parse :: "string \<Rightarrow> int option" where
  "utc_Date_parse s =
     (if length s = 10 \<and> punctuation_ok s [(4, CHR ''-''), (7, CHR ''-'')] then
        do {
          y \<leftarrow> number_at s 0 4; m \<leftarrow> number_at s 5 2; d \<leftarrow> number_at s 8 2;
          Some (days_from_civil (int y) (int m) (int d) * 86400000)
        }
      else if length s = 24 \<and>
              punctuation_ok s [(4, CHR ''-''), (7, CHR ''-''), (10, CHR ''T''),
                                (13, CHR '':''), (16, CHR '':''), (19, CHR ''.''),
                                (23, CHR ''Z'')] then
        do {
          y \<leftarrow> number_at s 0 4; m \<leftarrow> number_at s 5 2; d \<leftarrow> number_at s 8 2;
          hh \<leftarrow> number_at s 11 2; mm \<leftarrow> number_at s 14 2; ss \<leftarrow> number_at s 17 2;
          ms \<leftarrow> number_at s 20 3;
          Some (days_from_civil (int y) (int m) (int d) * 86400000
                + int (hh * 3600000 + mm * 60000 + ss * 1000 + ms))
        }
      else None)"

text \<open>Three decimals of a non-negative number, rounded half up.\<close>

definition fixed3 :: "real \<Rightarrow> string" where
  "fixed3 x =
     (let n = nat \<lfloor>x * 1000 + 1 / 2\<rfloor>
      in string_of_nat (n div 1000) @ ''.'' @ pad 3 (n mod 1000))"

text \<open>
  \<^verbatim>\<open>ToNumber\<close> on texts, for the texts of this program: a text of decimal digits is that
  number, any other text (a student id, a status, an ISO date) is NaN.
\<close>

definition digits_to_number :: "string \<Rightarrow> real option" where
  "digits_to_number s = (if s = [] then None else map_option real (digits_value 0 s))"

text \<open>Lower case for the letters A to Z; every other code unit is kept.\<close>

definition lower_char :: "char \<Rightarrow> char" where
  "lower_char c =
     (if CHR ''A'' \<le> c \<and> c \<le> CHR ''Z'' then char_of (of_char c + (32 :: nat)) else c)"

definition ascii_toLowerCase :: "string \<Rightarrow> string" where
  "ascii_toLowerCase s = map lower_char s"

definition utc_platform :: platform where
  "utc_platform =
     \<lparr> toISOString = utc_toISOString,
       Date_parse = utc_Date_parse,
       startOfLocalDay = (\<lambda>t. t - t mod 86400000),
       daysBefore = (\<lambda>t k. t - k * 86400000),
       toFixed3 = fixed3,
       Number_of_string = digits_to_number,
       toLowerCase = ascii_toLowerCase \<rparr>"

text \<open>A result with the given id, student id, status, confidence and processing date.\<close>

definition sample_result ::
  "string \<Rightarrow> string \<Rightarrow> ResultStatus \<Rightarrow> real \<Rightarrow> DateValue \<Rightarrow> StudentResult"
where
  "sample_result i sid s c d =
     \<lparr> result_id = i, studentId = sid, examSet = Set_A,
       sectionScores = [Data_Analytics \<mapsto> 2, AI_ML \<mapsto> 0, Data_Science \<mapsto> 0,
                        Generative_AI \<mapsto> 0, Statistics \<mapsto> 0],
       totalScore = 2, confidence = c, status = s,
       answers = [\<lparr> question = 1, studentAnswer = ''A'', correctAnswer = ''A'',
                     isCorrect = True \<rparr>],
       originalImage = ''https://picsum.photos/seed/'' @ sid @ ''/800/1100'',
       processingDate = d \<rparr>"

definition sample_file :: "string \<Rightarrow> OMRFile" where
  "sample_file i = \<lparr> file_id = i, preview = ''blob:'' @ i, file_progress = 0,
                     file_status = pending \<rparr>"

section \<open>Properties of the handlers of the application state\<close>

lemma sample_result_fields [simp]:
  "result_id (sample_result i sid s c d) = i"
  "studentId (sample_result i sid s c d) = sid"
  "status (sample_result i sid s c d) = s"
  "confidence (sample_result i sid s c d) = c"
  "processingDate (sample_result i sid s c d) = d"
  "totalScore (sample_result i sid s c d) = 2"
  "examSet (sample_result i sid s c d) = Set_A"
  by (simp_all add: sample_result_def)

lemma approve_fields:
  "status (approve r) = Complete \<and> confidence (approve r) = 1 \<and>
   result_id (approve r) = result_id r \<and> studentId (approve r) = studentId r \<and>
   examSet (approve r) = examSet r \<and> sectionScores (approve r) = sectionScores r \<and>
   totalScore (approve r) = totalScore r \<and> answers (approve r) = answers r \<and>
   originalImage (approve r) = originalImage r \<and> processingDate (approve r) = processingDate r"
  by (simp add: approve_def)

lemma studentResults_handleApproveResults:
  "studentResults (handleApproveResults ids st) =
     map (\<lambda>r. if result_id r \<in> set ids then approve r else r) (studentResults st)"
  by (simp add: handleApproveResults_def)

text \<open>
  Claim C6. Batch approve changes only the targeted rows and only the targeted fields: the
  list keeps its length, and at every position the result keeps its place; a result whose
  id is among the given ids gets status \<open>Complete\<close> and confidence 1 and keeps its eight
  other fields, and any other result is unchanged. The rest of the application state is
  unchanged, and approving one id is approving the list of that id.
\<close>

theorem handleApproveResults_frame:
  "length (studentResults (handleApproveResults ids st)) = length (studentResults st) \<and>
   (\<forall>i < length (studentResults st).
      (result_id (studentResults st ! i) \<in> set ids \<longrightarrow>
         status (studentResults (handleApproveResults ids st) ! i) = Complete \<and>
         confidence (studentResults (handleApproveResults ids st) ! i) = 1 \<and>
         result_id (studentResults (handleApproveResults ids st) ! i) =
           result_id (studentResults st ! i) \<and>
         studentId (studentResults (handleApproveResults ids st) ! i) =
           studentId (studentResults st ! i) \<and>
         examSet (studentResults (handleApproveResults ids st) ! i) =
           examSet (studentResults st ! i) \<and>
         sectionScores (studentResults (handleApproveResults ids st) ! i) =
           sectionScores (studentResults st ! i) \<and>
         totalScore (studentResults (handleApproveResults ids st) ! i) =
           totalScore (studentResults st ! i) \<and>
         answers (studentResults (handleApproveResults ids st) ! i) =
           answers (studentResults st ! i) \<and>
         originalImage (studentResults (handleApproveResults ids st) ! i) =
           originalImage (studentResults st ! i) \<and>
         processingDate (studentResults (handleApproveResults ids st) ! i) =
           processingDate (studentResults st ! i)) \<and>
      (result_id (studentResults st ! i) \<notin> set ids \<longrightarrow>
         studentResults (handleApproveResults ids st) ! i = studentResults st ! i)) \<and>
   view (handleApproveResults ids st) = view st \<and>
   omrFiles (handleApproveResults ids st) = omrFiles st \<and>
   totalProcessed (handleApproveResults ids st) = totalProcessed st \<and>
   handleApproveResult resultId st = handleApproveResults [resultId] st"
proof -
  have fields: "\<forall>i < length (studentResults st).
      (result_id (studentResults st ! i) \<in> set ids \<longrightarrow>
         studentResults (handleApproveResults ids st) ! i = approve (studentResults st ! i)) \<and>
      (result_id (studentResults st ! i) \<notin> set ids \<longrightarrow>
         studentResults (handleApproveResults ids st) ! i = studentResults st ! i)"
    by (simp add: studentResults_handleApproveResults)
  have rest: "view (handleApproveResults ids st) = view st \<and>
      omrFiles (handleApproveResults ids st) = omrFiles st \<and>
      totalProcessed (handleApproveResults ids st) = totalProcessed st"
    by (simp add: handleApproveResults_def)
  have single: "handleApproveResult resultId st = handleApproveResults [resultId] st"
    by (simp add: handleApproveResult_def handleApproveResults_def)
  have len: "length (studentResults (handleApproveResults ids st)) = length (studentResults st)"
    by (simp add: studentResults_handleApproveResults)
  from fields show ?thesis
    using len rest single by (simp add: approve_fields)
qed

theorem handleApproveResults_frame_witness:
  "status (studentResults (handleApproveResults [''f1'']
      (initialAppState\<lparr>studentResults :=
         [sample_result ''f1'' ''ST001-100'' Needs_Review 0.85 (DateObj 0),
          sample_result ''f2'' ''ST002-200'' Needs_Review 0.8 (DateObj 0)]\<rparr>)) ! 0) = Complete \<and>
   studentResults (handleApproveResults [''f1'']
      (initialAppState\<lparr>studentResults :=
         [sample_result ''f1'' ''ST001-100'' Needs_Review 0.85 (DateObj 0),
          sample_result ''f2'' ''ST002-200'' Needs_Review 0.8 (DateObj 0)]\<rparr>)) ! 1 =
     sample_result ''f2'' ''ST002-200'' Needs_Review 0.8 (DateObj 0)"
  using handleApproveResults_frame [of "[''f1'']"
      "initialAppState\<lparr>studentResults :=
         [sample_result ''f1'' ''ST001-100'' Needs_Review 0.85 (DateObj 0),
          sample_result ''f2'' ''ST002-200'' Needs_Review 0.8 (DateObj 0)]\<rparr>"]
  by (simp add: nth_Cons')

text \<open>
  Claim C7. Batch delete removes exactly the selected results: what is left is a
  subsequence of the old list (so the order is kept and no result is modified), it holds
  exactly the results whose id is not among the given ids, each as often as before, and
  the rest of the application state is unchanged.
\<close>

theorem handleDeleteResults_exact:
  "subseq (studentResults (handleDeleteResults ids st)) (studentResults st) \<and>
   set (studentResults (handleDeleteResults ids st)) =
     {r \<in> set (studentResults st). result_id r \<notin> set ids} \<and>
   (\<forall>r. count (mset (studentResults (handleDeleteResults ids st))) r =
        (if result_id r \<in> set ids then 0 else count (mset (studentResults st)) r)) \<and>
   view (handleDeleteResults ids st) = view st \<and>
   omrFiles (handleDeleteResults ids st) = omrFiles st \<and>
   totalProcessed (handleDeleteResults ids st) = totalProcessed st"
  by (auto simp: handleDeleteResults_def count_mset)

theorem handleDeleteResults_exact_witness:
  "studentResults (handleDeleteResults [''f1'']
      (initialAppState\<lparr>studentResults :=
         [sample_result ''f1'' ''ST001-100'' Needs_Review 0.85 (DateObj 0),
          sample_result ''f2'' ''ST002-200'' Complete 0.95 (DateObj 0)]\<rparr>)) =
     [sample_result ''f2'' ''ST002-200'' Complete 0.95 (DateObj 0)]"
  using handleDeleteResults_exact [of "[''f1'']"
      "initialAppState\<lparr>studentResults :=
         [sample_result ''f1'' ''ST001-100'' Needs_Review 0.85 (DateObj 0),
          sample_result ''f2'' ''ST002-200'' Complete 0.95 (DateObj 0)]\<rparr>"]
  by (simp add: handleDeleteResults_def)

section \<open>Properties of the AI insights call\<close>

text \<open>
  The promise of \<^verbatim>\<open>generateAnalyticsInsights\<close> never rejects: the guard for the key returns
  before any request, and the single request is inside the \<^verbatim>\<open>try\<close>.
\<close>

lemma generateAnalyticsInsights_never_rejects:
  "\<exists>v. fst (generateAnalyticsInsights API_KEY pretty api rs) = Returns v"
  by (auto simp: generateAnalyticsInsights_def Let_def split: api_outcome.splits)

lemma generateAnalyticsInsights_cases:
  "(API_KEY = None \<or> API_KEY = Some [] \<longrightarrow>
      generateAnalyticsInsights API_KEY pretty api rs =
        (Returns (Some key_missing_message), [])) \<and>
   (API_KEY \<noteq> None \<and> API_KEY \<noteq> Some [] \<longrightarrow>
      snd (generateAnalyticsInsights API_KEY pretty api rs) =
        [\<lparr> model = ''gemini-2.5-flash'', contents = insights_prompt pretty rs \<rparr>] \<and>
      (\<forall>e. api \<lparr> model = ''gemini-2.5-flash'', contents = insights_prompt pretty rs \<rparr>
             = Rejects e \<longrightarrow>
         fst (generateAnalyticsInsights API_KEY pretty api rs) = Returns (Some error_notice)) \<and>
      (\<forall>text. api \<lparr> model = ''gemini-2.5-flash'', contents = insights_prompt pretty rs \<rparr>
                = Resolves text \<longrightarrow>
         fst (generateAnalyticsInsights API_KEY pretty api rs) = Returns text))"
  by (auto simp: generateAnalyticsInsights_def Let_def split: api_outcome.splits)

text \<open>
  Claim C8 says that \<^verbatim>\<open>generateAnalyticsInsights\<close> returns a string for every input. For a
  configured key and a reply of the service that carries no text, the function sends its
  one request and its promise resolves with \<^verbatim>\<open>undefined\<close>, which is not a string: the
  function returns \<^verbatim>\<open>response.text\<close> unchecked.
\<close>

theorem generateAnalyticsInsights_undefined_text:
  "insights_service (\<lambda>key. Returns ()) (Some ''secret'') (\<lambda>j. ''[]'')
     (\<lambda>request. Resolves None) [] =
   (Returns None,
    [\<lparr> model = ''gemini-2.5-flash'', contents = insights_prompt (\<lambda>j. ''[]'') [] \<rparr>])"
  by (simp add: insights_service_def load_module_def generateAnalyticsInsights_def Let_def)

section \<open>Properties of the CSV export\<close>








lemma utc_platform_fields [simp]:
  "Date_parse utc_platform = utc_Date_parse"
  "toISOString utc_platform = utc_toISOString"
  "startOfLocalDay utc_platform = (\<lambda>t. t - t mod 86400000)"
  "daysBefore utc_platform = (\<lambda>t k. t - k * 86400000)"
  "toFixed3 utc_platform = fixed3"
  "Number_of_string utc_platform = digits_to_number"
  "toLowerCase utc_platform = ascii_toLowerCase"
  by (simp_all add: utc_platform_def)

lemma utc_Date_parse_examples:
  "utc_Date_parse ''2025-11-01'' = Some 1761955200000"
  "utc_Date_parse ''2025-10-20T08:00:00.000Z'' = Some 1760947200000"
  "utc_Date_parse ''2025-11-01T09:00:00.000Z'' = Some 1761987600000"
  by (simp_all add: utc_Date_parse_def punctuation_ok_def number_at_def digit_value_def
        days_from_civil_def)








section \<open>Properties of filtering, sorting and pagination\<close>

subsection \<open>The sort\<close>

lemma mset_insert_by: "mset (insert_by cmp x xs) = add_mset x (mset xs)"
  by (induction xs) auto

lemma mset_Array_sort: "mset (Array_sort cmp xs) = mset xs"
  unfolding Array_sort_def by (induction xs) (auto simp: mset_insert_by)

lemma set_insert_by: "set (insert_by cmp x xs) = insert x (set xs)"
  by (induction xs) auto

lemma set_Array_sort: "set (Array_sort cmp xs) = set xs"
  using mset_Array_sort [of cmp xs] by (metis set_mset_mset)

lemma length_Array_sort: "length (Array_sort cmp xs) = length xs"
  using mset_Array_sort [of cmp xs] by (metis size_mset)

lemma sorted_wrt_insert_by:
  assumes "sorted_wrt (\<lambda>a b. cmp a b \<le> 0) ys"
    and total: "\<And>y. y \<in> set ys \<Longrightarrow> cmp x y \<le> 0 \<or> cmp y x \<le> 0"
    and trans: "\<And>y z. y \<in> set ys \<Longrightarrow> z \<in> set ys \<Longrightarrow>
                  cmp x y \<le> 0 \<Longrightarrow> cmp y z \<le> 0 \<Longrightarrow> cmp x z \<le> 0"
  shows "sorted_wrt (\<lambda>a b. cmp a b \<le> 0) (insert_by cmp x ys)"
  using assms
proof (induction ys)
  case Nil
  then show ?case by simp
next
  case (Cons y ys)
  show ?case
  proof (cases "cmp x y \<le> 0")
    case True
    then have "\<forall>z \<in> set ys. cmp x z \<le> 0"
      using Cons.prems(1) Cons.prems(3) [of y] by auto
    then show ?thesis using True Cons.prems(1) by simp
  next
    case False
    then have yx: "cmp y x \<le> 0" using Cons.prems(2) [of y] by auto
    have "sorted_wrt (\<lambda>a b. cmp a b \<le> 0) (insert_by cmp x ys)"
      using Cons.prems by (intro Cons.IH) auto
    then show ?thesis
      using False yx Cons.prems(1) by (auto simp: set_insert_by)
  qed
qed

lemma sorted_wrt_Array_sort:
  assumes total: "\<And>a b. a \<in> set xs \<Longrightarrow> b \<in> set xs \<Longrightarrow> cmp a b \<le> 0 \<or> cmp b a \<le> 0"
    and trans: "\<And>a b c. a \<in> set xs \<Longrightarrow> b \<in> set xs \<Longrightarrow> c \<in> set xs \<Longrightarrow>
                  cmp a b \<le> 0 \<Longrightarrow> cmp b c \<le> 0 \<Longrightarrow> cmp a c \<le> 0"
  shows "sorted_wrt (\<lambda>a b. cmp a b \<le> 0) (Array_sort cmp xs)"
  using assms
proof (induction xs)
  case Nil
  show ?case by (simp add: Array_sort_def)
next
  case (Cons x xs)
  have sub: "\<And>a. a \<in> set xs \<Longrightarrow> a \<in> set (x # xs)" by simp
  have x: "x \<in> set (x # xs)" by simp
  have IH: "sorted_wrt (\<lambda>a b. cmp a b \<le> 0) (Array_sort cmp xs)"
  proof (rule Cons.IH)
    fix a b assume "a \<in> set xs" "b \<in> set xs"
    then show "cmp a b \<le> 0 \<or> cmp b a \<le> 0"
      by (rule Cons.prems(1) [OF sub sub])
  next
    fix a b c assume "a \<in> set xs" "b \<in> set xs" "c \<in> set xs" "cmp a b \<le> 0" "cmp b c \<le> 0"
    then show "cmp a c \<le> 0"
      by (rule Cons.prems(2) [OF sub sub sub])
  qed
  have "sorted_wrt (\<lambda>a b. cmp a b \<le> 0) (insert_by cmp x (Array_sort cmp xs))"
  proof (rule sorted_wrt_insert_by [OF IH])
    fix y assume "y \<in> set (Array_sort cmp xs)"
    then have "y \<in> set xs" by (simp only: set_Array_sort)
    then show "cmp x y \<le> 0 \<or> cmp y x \<le> 0"
      by (rule Cons.prems(1) [OF x sub])
  next
    fix y z assume "y \<in> set (Array_sort cmp xs)" "z \<in> set (Array_sort cmp xs)"
      and le: "cmp x y \<le> 0" "cmp y z \<le> 0"
    then have "y \<in> set xs" "z \<in> set xs" by (simp_all only: set_Array_sort)
    then show "cmp x z \<le> 0"
      using le by (rule Cons.prems(2) [OF x sub sub])
  qed
  then show ?case by (simp add: Array_sort_def)
qed

text \<open>
  When the comparison of the key values is the order of a measure, the comparator is
  consistent and the sorted list is in the order of the key.
\<close>

lemma compareResults_measure:
  fixes m :: "StudentResult \<Rightarrow> 'v :: linorder"
  assumes "js_lt plat (field k a) (field k b) = (m a < m b)"
      and "js_lt plat (field k b) (field k a) = (m b < m a)"
  shows "compareResults plat (k, asc) a b \<le> 0 \<longleftrightarrow> m a \<le> m b"
    and "compareResults plat (k, desc) a b \<le> 0 \<longleftrightarrow> m b \<le> m a"
  using assms by (auto simp: compareResults_def Let_def)

lemma Array_sort_ordered:
  fixes m :: "StudentResult \<Rightarrow> 'v :: linorder"
  assumes m: "\<And>a b. a \<in> set F \<Longrightarrow> b \<in> set F \<Longrightarrow>
                js_lt plat (field k a) (field k b) = (m a < m b)"
  shows "sorted_wrt (\<lambda>x y. \<not> js_lt plat (field k y) (field k x))
           (Array_sort (compareResults plat (k, asc)) F)"
    and "sorted_wrt (\<lambda>x y. \<not> js_lt plat (field k x) (field k y))
           (Array_sort (compareResults plat (k, desc)) F)"
proof -
  have asc: "\<And>a b. a \<in> set F \<Longrightarrow> b \<in> set F \<Longrightarrow>
      compareResults plat (k, asc) a b \<le> 0 \<longleftrightarrow> m a \<le> m b"
    using compareResults_measure(1) [of plat k _ _ m] m by blast
  have desc: "\<And>a b. a \<in> set F \<Longrightarrow> b \<in> set F \<Longrightarrow>
      compareResults plat (k, desc) a b \<le> 0 \<longleftrightarrow> m b \<le> m a"
    using compareResults_measure(2) [of plat k _ _ m] m by blast
  have "sorted_wrt (\<lambda>a b. compareResults plat (k, asc) a b \<le> 0)
          (Array_sort (compareResults plat (k, asc)) F)"
    by (rule sorted_wrt_Array_sort) (auto simp: asc)
  then have "sorted_wrt (\<lambda>a b. m a \<le> m b) (Array_sort (compareResults plat (k, asc)) F)"
    by (rule sorted_wrt_mono_rel [rotated]) (simp add: asc set_Array_sort)
  then show "sorted_wrt (\<lambda>x y. \<not> js_lt plat (field k y) (field k x))
           (Array_sort (compareResults plat (k, asc)) F)"
    by (rule sorted_wrt_mono_rel [rotated]) (simp add: m set_Array_sort)
  have "sorted_wrt (\<lambda>a b. compareResults plat (k, desc) a b \<le> 0)
          (Array_sort (compareResults plat (k, desc)) F)"
    by (rule sorted_wrt_Array_sort) (auto simp: desc)
  then have "sorted_wrt (\<lambda>a b. m b \<le> m a) (Array_sort (compareResults plat (k, desc)) F)"
    by (rule sorted_wrt_mono_rel [rotated]) (simp add: desc set_Array_sort)
  then show "sorted_wrt (\<lambda>x y. \<not> js_lt plat (field k x) (field k y))
           (Array_sort (compareResults plat (k, desc)) F)"
    by (rule sorted_wrt_mono_rel [rotated]) (simp add: m set_Array_sort)
qed


lemma js_lt_same_kind:
  "js_lt plat (JSStr s) (JSStr t) = (s < t)"
  "js_lt plat (JSNum x) (JSNum y) = (x < y)"
  "js_lt plat (JSDate a) (JSDate b) = (a < b)"
  by (simp_all add: js_lt_def toNumber_def)

lemma sortedResults_ordered:
  assumes "k \<noteq> key_processingDate \<or>
           (\<forall>r \<in> set F. \<exists>t. processingDate r = DateObj t) \<or>
           (\<forall>r \<in> set F. \<exists>s. processingDate r = DateStr s)"
  shows "sorted_wrt (\<lambda>x y. \<not> js_lt plat (field k y) (field k x))
           (Array_sort (compareResults plat (k, asc)) F) \<and>
         sorted_wrt (\<lambda>x y. \<not> js_lt plat (field k x) (field k y))
           (Array_sort (compareResults plat (k, desc)) F)"
proof (cases k)
  case key_studentId
  have "\<And>a b. js_lt plat (field k a) (field k b) = (studentId a < studentId b)"
    by (simp add: key_studentId field_def js_lt_same_kind)
  from Array_sort_ordered [of F plat k studentId, OF this] show ?thesis by blast
next
  case key_totalScore
  have "\<And>a b. js_lt plat (field k a) (field k b) = (totalScore a < totalScore b)"
    by (simp add: key_totalScore field_def js_lt_same_kind)
  from Array_sort_ordered [of F plat k totalScore, OF this] show ?thesis by blast
next
  case key_status
  have "\<And>a b. js_lt plat (field k a) (field k b) =
          (status_string (status a) < status_string (status b))"
    by (simp add: key_status field_def js_lt_same_kind)
  from Array_sort_ordered [of F plat k "\<lambda>r. status_string (status r)", OF this]
  show ?thesis by blast
next
  case key_confidence
  have "\<And>a b. js_lt plat (field k a) (field k b) = (confidence a < confidence b)"
    by (simp add: key_confidence field_def js_lt_same_kind)
  from Array_sort_ordered [of F plat k confidence, OF this] show ?thesis by blast
next
  case key_examSet
  have "\<And>a b. js_lt plat (field k a) (field k b) =
          (examSet_string (examSet a) < examSet_string (examSet b))"
    by (simp add: key_examSet field_def js_lt_same_kind)
  from Array_sort_ordered [of F plat k "\<lambda>r. examSet_string (examSet r)", OF this]
  show ?thesis by blast
next
  case key_processingDate
  with assms consider
    (objects) "\<forall>r \<in> set F. \<exists>t. processingDate r = DateObj t" |
    (texts) "\<forall>r \<in> set F. \<exists>s. processingDate r = DateStr s"
    by blast
  then show ?thesis
  proof cases
    case objects
    have "\<And>a b. a \<in> set F \<Longrightarrow> b \<in> set F \<Longrightarrow>
            js_lt plat (field k a) (field k b) =
              ((case processingDate a of DateObj t \<Rightarrow> t | DateStr s \<Rightarrow> 0)
               < (case processingDate b of DateObj t \<Rightarrow> t | DateStr s \<Rightarrow> 0))"
    proof -
      fix a b assume "a \<in> set F" "b \<in> set F"
      then obtain t u where "processingDate a = DateObj t" "processingDate b = DateObj u"
        using objects by blast
      then show "js_lt plat (field k a) (field k b) =
              ((case processingDate a of DateObj t \<Rightarrow> t | DateStr s \<Rightarrow> 0)
               < (case processingDate b of DateObj t \<Rightarrow> t | DateStr s \<Rightarrow> 0))"
        by (simp add: key_processingDate field_def js_lt_same_kind)
    qed
    from Array_sort_ordered [of F plat k
        "\<lambda>r. case processingDate r of DateObj t \<Rightarrow> t | DateStr s \<Rightarrow> 0", OF this]
    show ?thesis by blast
  next
    case texts
    have "\<And>a b. a \<in> set F \<Longrightarrow> b \<in> set F \<Longrightarrow>
            js_lt plat (field k a) (field k b) =
              ((case processingDate a of DateObj t \<Rightarrow> [] | DateStr s \<Rightarrow> s)
               < (case processingDate b of DateObj t \<Rightarrow> [] | DateStr s \<Rightarrow> s))"
    proof -
      fix a b assume "a \<in> set F" "b \<in> set F"
      then obtain s u where "processingDate a = DateStr s" "processingDate b = DateStr u"
        using texts by blast
      then show "js_lt plat (field k a) (field k b) =
              ((case processingDate a of DateObj t \<Rightarrow> [] | DateStr s \<Rightarrow> s)
               < (case processingDate b of DateObj t \<Rightarrow> [] | DateStr s \<Rightarrow> s))"
        by (simp add: key_processingDate field_def js_lt_same_kind)
    qed
    from Array_sort_ordered [of F plat k
        "\<lambda>r. case processingDate r of DateObj t \<Rightarrow> [] | DateStr s \<Rightarrow> s", OF this]
    show ?thesis by blast
  qed
qed


lemma js_lt_irrefl: "\<not> js_lt plat v v"
  by (cases v) (simp_all add: js_lt_def toNumber_def split: option.splits)

lemma compareResults_equal_keys:
  "field (fst cfg) a = field (fst cfg) b \<Longrightarrow> compareResults plat cfg a b = 0"
  by (simp add: compareResults_def Let_def js_lt_irrefl)

lemma filter_insert_by:
  assumes "\<And>y. y \<in> set ys \<Longrightarrow> P x \<Longrightarrow> P y \<Longrightarrow> cmp x y \<le> 0"
  shows "filter P (insert_by cmp x ys) = (if P x then x # filter P ys else filter P ys)"
  using assms by (induction ys) auto

lemma filter_Array_sort:
  assumes "\<And>x y. x \<in> set xs \<Longrightarrow> y \<in> set xs \<Longrightarrow> P x \<Longrightarrow> P y \<Longrightarrow> cmp x y \<le> 0"
  shows "filter P (Array_sort cmp xs) = filter P xs"
  using assms
proof (induction xs)
  case Nil
  show ?case by (simp add: Array_sort_def)
next
  case (Cons x xs)
  have IH: "filter P (Array_sort cmp xs) = filter P xs"
  proof (rule Cons.IH)
    fix a b assume "a \<in> set xs" "b \<in> set xs" "P a" "P b"
    then show "cmp a b \<le> 0" using Cons.prems [of a b] by simp
  qed
  have "filter P (insert_by cmp x (Array_sort cmp xs)) =
          (if P x then x # filter P (Array_sort cmp xs) else filter P (Array_sort cmp xs))"
  proof (rule filter_insert_by)
    fix y assume "y \<in> set (Array_sort cmp xs)" "P x" "P y"
    then show "cmp x y \<le> 0" using Cons.prems [of x y] by (simp add: set_Array_sort)
  qed
  moreover have "Array_sort cmp (x # xs) = insert_by cmp x (Array_sort cmp xs)"
    by (simp add: Array_sort_def)
  ultimately show ?case by (simp add: IH)
qed

lemma sortedResults_stable:
  "filter (\<lambda>r. field (fst cfg) r = v) (Array_sort (compareResults plat cfg) F) =
   filter (\<lambda>r. field (fst cfg) r = v) F"
  by (rule filter_Array_sort) (simp add: compareResults_equal_keys)

lemma status_passes_iff:
  "status_passes f s \<longleftrightarrow> f = Filter_All \<or> f = Filter_Only s"
  by (auto simp: status_passes_def split: StatusFilter.splits)

lemma filteredResults_filter:
  "filteredResults plat rs st =
     filter (\<lambda>r. str_includes (toLowerCase plat (studentId r)) (toLowerCase plat (searchTerm st)) \<and>
                 (statusFilter st = Filter_All \<or> statusFilter st = Filter_Only (status r))) rs"
  by (simp add: filteredResults_def status_passes_iff)

lemma js_slice_nonneg:
  assumes "0 \<le> a" "a \<le> b"
  shows "js_slice xs a b = take (nat (b - a)) (drop (nat a) xs)"
proof (cases "a \<le> int (length xs)")
  case True
  then show ?thesis using assms
    by (auto simp: js_slice_def Let_def min_def intro!: nth_equalityI)
next
  case False
  then show ?thesis using assms by (simp add: js_slice_def Let_def min_def)
qed

lemma take_drop_map_nth:
  "take n (drop a xs) = map ((!) xs) [a ..< min (a + n) (length xs)]"
proof (rule nth_equalityI)
  show "length (take n (drop a xs)) = length (map ((!) xs) [a ..< min (a + n) (length xs)])"
    by auto
next
  fix i assume i: "i < length (take n (drop a xs))"
  then have "i < n" "a + i < length xs" by auto
  then have "[a ..< min (a + n) (length xs)] ! i = a + i"
    by (auto simp: min_def)
  moreover have "i < length [a ..< min (a + n) (length xs)]"
    using \<open>i < n\<close> \<open>a + i < length xs\<close> by (auto simp: min_def)
  ultimately show "take n (drop a xs) ! i = map ((!) xs) [a ..< min (a + n) (length xs)] ! i"
    using i by simp
qed

lemma ceiling_tenth: "\<lceil>real n / 10\<rceil> = int ((n + 9) div 10)"
proof -
  have "\<lceil>real n / 10\<rceil> = \<lceil>of_int (int n) / (of_int 10 :: real)\<rceil>" by simp
  also have "\<dots> = - (- int n div 10)" by (rule ceiling_divide_eq_div)
  also have "\<dots> = int ((n + 9) div 10)" by linarith
  finally show ?thesis .
qed

text \<open>
  Claim C1, as amended. For a page number \<open>p \<ge> 1\<close> (the handlers of the view keep the page
  number at 1 or above), the rows that the results view displays are the entries at the
  positions \<open>(p - 1) * 10\<close> up to, and not including, \<open>p * 10\<close> (as far as the list goes)
  of the list \<open>L\<close> of the sorted results. \<open>L\<close> is a permutation of the results whose student
  id, in lower case, contains the search term, in lower case, and whose status passes the
  status filter. Results with the same value of the configured key keep their order. \<open>L\<close>
  is in ascending, respectively descending, order of the configured key under the
  comparison \<^verbatim>\<open><\<close> of JavaScript whenever the key is not \<^verbatim>\<open>processingDate\<close>, or the processing
  dates of the filtered results are all Date objects, or are all texts; nothing is said
  about the order on a list that mixes the two. The variable \<^verbatim>\<open>totalPages\<close> is the ceiling
  of a tenth of the number \<open>n\<close> of filtered results, and the page count that the pager
  shows is 1 for \<open>n = 0\<close> and that ceiling otherwise.
\<close>

theorem paginatedResults_slice:
  assumes "1 \<le> currentPage st"
  shows
    "let F = filter (\<lambda>r. str_includes (toLowerCase plat (studentId r))
                                     (toLowerCase plat (searchTerm st)) \<and>
                          (statusFilter st = Filter_All \<or>
                           statusFilter st = Filter_Only (status r))) rs;
         L = sortedResults plat rs st;
         a = nat ((currentPage st - 1) * 10)
     in paginatedResults plat rs st = map ((!) L) [a ..< min (a + 10) (length L)] \<and>
        mset L = mset F \<and>
        (sortConfig st = None \<longrightarrow> L = F) \<and>
        (\<forall>k d v. sortConfig st = Some (k, d) \<longrightarrow>
           filter (\<lambda>r. field k r = v) L = filter (\<lambda>r. field k r = v) F) \<and>
        (\<forall>k. sortConfig st = Some (k, asc) \<and>
             (k \<noteq> key_processingDate \<or>
              (\<forall>r \<in> set F. \<exists>t. processingDate r = DateObj t) \<or>
              (\<forall>r \<in> set F. \<exists>s. processingDate r = DateStr s)) \<longrightarrow>
           sorted_wrt (\<lambda>x y. \<not> js_lt plat (field k y) (field k x)) L) \<and>
        (\<forall>k. sortConfig st = Some (k, desc) \<and>
             (k \<noteq> key_processingDate \<or>
              (\<forall>r \<in> set F. \<exists>t. processingDate r = DateObj t) \<or>
              (\<forall>r \<in> set F. \<exists>s. processingDate r = DateStr s)) \<longrightarrow>
           sorted_wrt (\<lambda>x y. \<not> js_lt plat (field k x) (field k y)) L) \<and>
        totalPages plat rs st = \<lceil>real (length F) / 10\<rceil> \<and>
        shownTotalPages plat rs st =
          (if length F = 0 then 1 else \<lceil>real (length F) / 10\<rceil>)"
proof -
  define F where "F = filteredResults plat rs st"
  define L where "L = sortedResults plat rs st"
  have L: "L = (case sortConfig st of None \<Rightarrow> F
                | Some cfg \<Rightarrow> Array_sort (compareResults plat cfg) F)"
    by (simp add: L_def F_def sortedResults_def Let_def split: option.splits)
  have perm: "mset L = mset F"
    by (simp add: L mset_Array_sort split: option.splits)
  then have len: "length L = length F"
    by (metis size_mset)
  have unsorted: "sortConfig st = None \<longrightarrow> L = F"
    by (simp add: L)
  have stable: "\<forall>k d v. sortConfig st = Some (k, d) \<longrightarrow>
           filter (\<lambda>r. field k r = v) L = filter (\<lambda>r. field k r = v) F"
    using sortedResults_stable [of "(_, _)" _ plat F] by (simp add: L)
  have up: "\<forall>k. sortConfig st = Some (k, asc) \<and>
             (k \<noteq> key_processingDate \<or>
              (\<forall>r \<in> set F. \<exists>t. processingDate r = DateObj t) \<or>
              (\<forall>r \<in> set F. \<exists>s. processingDate r = DateStr s)) \<longrightarrow>
           sorted_wrt (\<lambda>x y. \<not> js_lt plat (field k y) (field k x)) L"
    using sortedResults_ordered [of _ F plat] by (auto simp: L)
  have down: "\<forall>k. sortConfig st = Some (k, desc) \<and>
             (k \<noteq> key_processingDate \<or>
              (\<forall>r \<in> set F. \<exists>t. processingDate r = DateObj t) \<or>
              (\<forall>r \<in> set F. \<exists>s. processingDate r = DateStr s)) \<longrightarrow>
           sorted_wrt (\<lambda>x y. \<not> js_lt plat (field k x) (field k y)) L"
    using sortedResults_ordered [of _ F plat] by (auto simp: L)
  have "paginatedResults plat rs st =
          take 10 (drop (nat ((currentPage st - 1) * 10)) L)"
    using assms by (simp add: paginatedResults_def L_def RESULTS_PER_PAGE_def js_slice_nonneg)
  then have rows: "paginatedResults plat rs st =
      map ((!) L) [nat ((currentPage st - 1) * 10) ..<
                   min (nat ((currentPage st - 1) * 10) + 10) (length L)]"
    by (simp only: take_drop_map_nth)
  have pages: "totalPages plat rs st = \<lceil>real (length F) / 10\<rceil>"
    by (simp add: totalPages_def L_def [symmetric] len RESULTS_PER_PAGE_def)
  have shown: "shownTotalPages plat rs st =
          (if length F = 0 then 1 else \<lceil>real (length F) / 10\<rceil>)"
  proof -
    have "(length F + 9) div 10 = 0 \<longleftrightarrow> length F = 0" by linarith
    then show ?thesis by (simp add: shownTotalPages_def pages ceiling_tenth)
  qed
  from rows perm unsorted stable up down pages shown show ?thesis
    unfolding Let_def filteredResults_filter [symmetric] F_def [symmetric] L_def [symmetric]
    by (intro conjI)
qed


lemma totalPages_nonneg: "0 \<le> totalPages plat rs st"
  by (simp add: totalPages_def RESULTS_PER_PAGE_def)

lemma page_number_positive:
  "currentPage initialResultsViewState = 1"
  "1 \<le> currentPage (onSearchChange v st)"
  "1 \<le> currentPage (onStatusFilterClick f st)"
  "1 \<le> currentPage st \<Longrightarrow> 1 \<le> currentPage (onPreviousPage st)"
  "1 \<le> currentPage st \<Longrightarrow> 1 \<le> currentPage (onNextPage plat rs st)"
  "currentPage (requestSort k st) = currentPage st"
  using totalPages_nonneg [of plat rs st]
  by (auto simp: initialResultsViewState_def onSearchChange_def onStatusFilterClick_def
        onPreviousPage_def onNextPage_def requestSort_def Let_def)

lemma requestSort_toggle:
  "sortConfig (requestSort k st) =
     Some (k, if sortConfig st = Some (k, asc) then desc else asc)"
  "searchTerm (requestSort k st) = searchTerm st"
  "statusFilter (requestSort k st) = statusFilter st"
  by (auto simp: requestSort_def Let_def split: option.splits)

lemma includes_examples:
  "str_includes (ascii_toLowerCase ''ST003-300'') (ascii_toLowerCase ''st0'')"
  "str_includes (ascii_toLowerCase ''ST001-100'') (ascii_toLowerCase ''st0'')"
  "\<not> str_includes (ascii_toLowerCase ''XY002-200'') (ascii_toLowerCase ''st0'')"
  by code_simp+

lemma sortedResults_example:
  "sortedResults utc_platform
     [sample_result ''f3'' ''ST003-300'' Complete 1 (DateObj 0),
      sample_result ''f1'' ''ST001-100'' Needs_Review (4 / 5) (DateObj 0),
      sample_result ''f2'' ''XY002-200'' Complete 1 (DateObj 0)]
     (initialResultsViewState\<lparr>sortConfig := Some (key_studentId, asc), searchTerm := ''st0''\<rparr>) =
   [sample_result ''f1'' ''ST001-100'' Needs_Review (4 / 5) (DateObj 0),
    sample_result ''f3'' ''ST003-300'' Complete 1 (DateObj 0)]"
  by (simp add: sortedResults_def filteredResults_def includes_examples status_passes_def
        initialResultsViewState_def Array_sort_def compareResults_def field_def js_lt_def)

theorem paginatedResults_slice_witness:
  "1 \<le> currentPage (initialResultsViewState\<lparr>sortConfig := Some (key_studentId, asc),
                                              searchTerm := ''st0''\<rparr>) \<and>
   paginatedResults utc_platform
     [sample_result ''f3'' ''ST003-300'' Complete 1 (DateObj 0),
      sample_result ''f1'' ''ST001-100'' Needs_Review (4 / 5) (DateObj 0),
      sample_result ''f2'' ''XY002-200'' Complete 1 (DateObj 0)]
     (initialResultsViewState\<lparr>sortConfig := Some (key_studentId, asc), searchTerm := ''st0''\<rparr>) =
   [sample_result ''f1'' ''ST001-100'' Needs_Review (4 / 5) (DateObj 0),
    sample_result ''f3'' ''ST003-300'' Complete 1 (DateObj 0)] \<and>
   sorted_wrt (\<lambda>x y. \<not> js_lt utc_platform (field key_studentId y) (field key_studentId x))
     [sample_result ''f1'' ''ST001-100'' Needs_Review (4 / 5) (DateObj 0),
      sample_result ''f3'' ''ST003-300'' Complete 1 (DateObj 0)] \<and>
   shownTotalPages utc_platform
     [sample_result ''f3'' ''ST003-300'' Complete 1 (DateObj 0),
      sample_result ''f1'' ''ST001-100'' Needs_Review (4 / 5) (DateObj 0),
      sample_result ''f2'' ''XY002-200'' Complete 1 (DateObj 0)]
     (initialResultsViewState\<lparr>sortConfig := Some (key_studentId, asc), searchTerm := ''st0''\<rparr>) = 1"
proof -
  have page: "1 \<le> currentPage (initialResultsViewState\<lparr>sortConfig := Some (key_studentId, asc),
                                              searchTerm := ''st0''\<rparr>)"
    by (simp add: initialResultsViewState_def)
  have cfg: "sortConfig (initialResultsViewState\<lparr>sortConfig := Some (key_studentId, asc),
                                              searchTerm := ''st0''\<rparr>) = Some (key_studentId, asc)"
       "currentPage (initialResultsViewState\<lparr>sortConfig := Some (key_studentId, asc),
                                              searchTerm := ''st0''\<rparr>) = 1"
    by (simp_all add: initialResultsViewState_def)
  note inst = paginatedResults_slice [OF page, where plat = utc_platform and rs =
      "[sample_result ''f3'' ''ST003-300'' Complete 1 (DateObj 0),
        sample_result ''f1'' ''ST001-100'' Needs_Review (4 / 5) (DateObj 0),
        sample_result ''f2'' ''XY002-200'' Complete 1 (DateObj 0)]",
      unfolded Let_def sortedResults_example cfg]
  have rows: "paginatedResults utc_platform
     [sample_result ''f3'' ''ST003-300'' Complete 1 (DateObj 0),
      sample_result ''f1'' ''ST001-100'' Needs_Review (4 / 5) (DateObj 0),
      sample_result ''f2'' ''XY002-200'' Complete 1 (DateObj 0)]
     (initialResultsViewState\<lparr>sortConfig := Some (key_studentId, asc), searchTerm := ''st0''\<rparr>) =
   [sample_result ''f1'' ''ST001-100'' Needs_Review (4 / 5) (DateObj 0),
    sample_result ''f3'' ''ST003-300'' Complete 1 (DateObj 0)]"
    using inst [THEN conjunct1] by (simp add: numeral_2_eq_2)
  have ordered: "sorted_wrt (\<lambda>x y. \<not> js_lt utc_platform (field key_studentId y)
                                                  (field key_studentId x))
     [sample_result ''f1'' ''ST001-100'' Needs_Review (4 / 5) (DateObj 0),
      sample_result ''f3'' ''ST003-300'' Complete 1 (DateObj 0)]"
    using inst [THEN conjunct2, THEN conjunct2, THEN conjunct2, THEN conjunct2,
                THEN conjunct1, rule_format, of key_studentId]
    by simp
  have len: "length [sample_result ''f1'' ''ST001-100'' Needs_Review (4 / 5) (DateObj 0),
                     sample_result ''f3'' ''ST003-300'' Complete 1 (DateObj 0)] = 2"
    by simp
  have "mset [sample_result ''f1'' ''ST001-100'' Needs_Review (4 / 5) (DateObj 0),
              sample_result ''f3'' ''ST003-300'' Complete 1 (DateObj 0)] =
        mset (filter (\<lambda>r. str_includes (toLowerCase utc_platform (studentId r))
                 (toLowerCase utc_platform (searchTerm (initialResultsViewState
                    \<lparr>sortConfig := Some (key_studentId, asc), searchTerm := ''st0''\<rparr>))) \<and>
                 (statusFilter (initialResultsViewState
                    \<lparr>sortConfig := Some (key_studentId, asc), searchTerm := ''st0''\<rparr>) = Filter_All \<or>
                  statusFilter (initialResultsViewState
                    \<lparr>sortConfig := Some (key_studentId, asc), searchTerm := ''st0''\<rparr>) =
                  Filter_Only (status r)))
          [sample_result ''f3'' ''ST003-300'' Complete 1 (DateObj 0),
           sample_result ''f1'' ''ST001-100'' Needs_Review (4 / 5) (DateObj 0),
           sample_result ''f2'' ''XY002-200'' Complete 1 (DateObj 0)])"
    using inst [THEN conjunct2, THEN conjunct1] .
  then have "size (mset [sample_result ''f1'' ''ST001-100'' Needs_Review (4 / 5) (DateObj 0),
              sample_result ''f3'' ''ST003-300'' Complete 1 (DateObj 0)]) =
        size (mset (filter (\<lambda>r. str_includes (toLowerCase utc_platform (studentId r))
                 (toLowerCase utc_platform (searchTerm (initialResultsViewState
                    \<lparr>sortConfig := Some (key_studentId, asc), searchTerm := ''st0''\<rparr>))) \<and>
                 (statusFilter (initialResultsViewState
                    \<lparr>sortConfig := Some (key_studentId, asc), searchTerm := ''st0''\<rparr>) = Filter_All \<or>
                  statusFilter (initialResultsViewState
                    \<lparr>sortConfig := Some (key_studentId, asc), searchTerm := ''st0''\<rparr>) =
                  Filter_Only (status r)))
          [sample_result ''f3'' ''ST003-300'' Complete 1 (DateObj 0),
           sample_result ''f1'' ''ST001-100'' Needs_Review (4 / 5) (DateObj 0),
           sample_result ''f2'' ''XY002-200'' Complete 1 (DateObj 0)]))"
    by (rule arg_cong)
  then have n: "length (filter (\<lambda>r. str_includes (toLowerCase utc_platform (studentId r))
                 (toLowerCase utc_platform (searchTerm (initialResultsViewState
                    \<lparr>sortConfig := Some (key_studentId, asc), searchTerm := ''st0''\<rparr>))) \<and>
                 (statusFilter (initialResultsViewState
                    \<lparr>sortConfig := Some (key_studentId, asc), searchTerm := ''st0''\<rparr>) = Filter_All \<or>
                  statusFilter (initialResultsViewState
                    \<lparr>sortConfig := Some (key_studentId, asc), searchTerm := ''st0''\<rparr>) =
                  Filter_Only (status r)))
          [sample_result ''f3'' ''ST003-300'' Complete 1 (DateObj 0),
           sample_result ''f1'' ''ST001-100'' Needs_Review (4 / 5) (DateObj 0),
           sample_result ''f2'' ''XY002-200'' Complete 1 (DateObj 0)]) = 2"
    unfolding size_mset len by (rule sym)
  have shown: "shownTotalPages utc_platform
     [sample_result ''f3'' ''ST003-300'' Complete 1 (DateObj 0),
      sample_result ''f1'' ''ST001-100'' Needs_Review (4 / 5) (DateObj 0),
      sample_result ''f2'' ''XY002-200'' Complete 1 (DateObj 0)]
     (initialResultsViewState\<lparr>sortConfig := Some (key_studentId, asc), searchTerm := ''st0''\<rparr>) = 1"
    using inst [THEN conjunct2, THEN conjunct2, THEN conjunct2, THEN conjunct2,
                THEN conjunct2, THEN conjunct2, THEN conjunct2]
    unfolding n ceiling_tenth by simp
  from page rows ordered shown show ?thesis by (intro conjI)
qed


text \<open>
  A Date object against a text that is no number: both comparisons are false, and the
  comparator answers 0 whatever the two dates are.
\<close>

lemma compareResults_date_against_text:
  assumes "Number_of_string plat s = None"
      and "processingDate a = DateStr s" "processingDate b = DateObj t"
  shows "compareResults plat (key_processingDate, d) a b = 0"
    and "compareResults plat (key_processingDate, d) b a = 0"
  using assms by (simp_all add: compareResults_def field_def js_lt_def toNumber_def Let_def)

lemma iso_text_is_no_number:
  "digits_to_number ''2025-11-01T09:00:00.000Z'' = None"
  by (simp add: digits_to_number_def digit_value_def)

lemma mixed_dates_unsorted:
  "Array_sort (compareResults utc_platform (key_processingDate, asc))
     [sample_result ''old'' ''ST001-100'' Complete 1 (DateStr ''2025-11-01T09:00:00.000Z''),
      sample_result ''new'' ''ST002-200'' Complete 1 (DateObj 1760947200000)] =
   [sample_result ''old'' ''ST001-100'' Complete 1 (DateStr ''2025-11-01T09:00:00.000Z''),
    sample_result ''new'' ''ST002-200'' Complete 1 (DateObj 1760947200000)]"
  by (simp add: Array_sort_def
        compareResults_date_against_text [where s = "''2025-11-01T09:00:00.000Z''"
          and t = 1760947200000]
        iso_text_is_no_number)

lemma mixed_dates_order:
  "date_lt (newDate utc_platform (DateObj 1760947200000))
           (newDate utc_platform (DateStr ''2025-11-01T09:00:00.000Z''))"
  by (simp add: date_lt_def newDate_def utc_Date_parse_examples)

lemma empty_search_matches: "str_includes s (ascii_toLowerCase [])"
  by (simp add: str_includes_def ascii_toLowerCase_def)

lemma mixed_dates_filtered:
  "searchTerm st = [] \<Longrightarrow> statusFilter st = Filter_All \<Longrightarrow>
   filteredResults utc_platform rs st = rs"
  by (simp add: filteredResults_def empty_search_matches status_passes_def)

text \<open>
  Claim C1 as it was stated fails in two places. The pager of an empty table shows the page
  count 1, not the ceiling 0 (the view shows \<^verbatim>\<open>totalPages || 1\<close>). And on a list with a
  reloaded result, whose date is a text, before a newly processed one, whose date is a
  Date object, the rows sorted by \<^verbatim>\<open>processingDate\<close> ascending stay as they are, although
  the second date is the earlier one.
\<close>

theorem paginatedResults_slice_counterexample:
  "shownTotalPages utc_platform [] initialResultsViewState \<noteq>
     \<lceil>real (length (filteredResults utc_platform [] initialResultsViewState)) / 10\<rceil> \<and>
   paginatedResults utc_platform
     [sample_result ''old'' ''ST001-100'' Complete 1 (DateStr ''2025-11-01T09:00:00.000Z''),
      sample_result ''new'' ''ST002-200'' Complete 1 (DateObj 1760947200000)]
     (initialResultsViewState\<lparr>sortConfig := Some (key_processingDate, asc)\<rparr>) =
   [sample_result ''old'' ''ST001-100'' Complete 1 (DateStr ''2025-11-01T09:00:00.000Z''),
    sample_result ''new'' ''ST002-200'' Complete 1 (DateObj 1760947200000)] \<and>
   date_lt (newDate utc_platform (DateObj 1760947200000))
           (newDate utc_platform (DateStr ''2025-11-01T09:00:00.000Z''))"
proof -
  have shown: "shownTotalPages utc_platform [] initialResultsViewState \<noteq>
     \<lceil>real (length (filteredResults utc_platform [] initialResultsViewState)) / 10\<rceil>"
    by (simp add: shownTotalPages_def totalPages_def sortedResults_def filteredResults_def
          initialResultsViewState_def Array_sort_def RESULTS_PER_PAGE_def)
  have sorted: "sortedResults utc_platform
     [sample_result ''old'' ''ST001-100'' Complete 1 (DateStr ''2025-11-01T09:00:00.000Z''),
      sample_result ''new'' ''ST002-200'' Complete 1 (DateObj 1760947200000)]
     (initialResultsViewState\<lparr>sortConfig := Some (key_processingDate, asc)\<rparr>) =
     [sample_result ''old'' ''ST001-100'' Complete 1 (DateStr ''2025-11-01T09:00:00.000Z''),
      sample_result ''new'' ''ST002-200'' Complete 1 (DateObj 1760947200000)]"
    by (simp add: sortedResults_def mixed_dates_filtered initialResultsViewState_def
          mixed_dates_unsorted)
  have rows: "paginatedResults utc_platform
     [sample_result ''old'' ''ST001-100'' Complete 1 (DateStr ''2025-11-01T09:00:00.000Z''),
      sample_result ''new'' ''ST002-200'' Complete 1 (DateObj 1760947200000)]
     (initialResultsViewState\<lparr>sortConfig := Some (key_processingDate, asc)\<rparr>) =
   [sample_result ''old'' ''ST001-100'' Complete 1 (DateStr ''2025-11-01T09:00:00.000Z''),
    sample_result ''new'' ''ST002-200'' Complete 1 (DateObj 1760947200000)]"
    unfolding paginatedResults_def sorted
    by (simp add: initialResultsViewState_def RESULTS_PER_PAGE_def js_slice_def)
  from shown rows mixed_dates_order show ?thesis by (intro conjI)
qed

text \<open>
  Claim C5 says that the results can be sorted on the column \<^verbatim>\<open>processingDate\<close>. On a list
  with a reloaded result, whose date is a text, before a newly processed one, whose date
  is a Date object, a request to sort on that column in the initial view leaves the list as
  it is, although the second date is the earlier one: the comparator compares the stored
  values and answers 0 for the pair.
\<close>

theorem sortedResults_mixed_dates:
  "sortConfig (requestSort key_processingDate initialResultsViewState) =
     Some (key_processingDate, asc) \<and>
   compareResults utc_platform (key_processingDate, asc)
     (sample_result ''old'' ''ST001-100'' Complete 1 (DateStr ''2025-11-01T09:00:00.000Z''))
     (sample_result ''new'' ''ST002-200'' Complete 1 (DateObj 1760947200000)) = 0 \<and>
   sortedResults utc_platform
     [sample_result ''old'' ''ST001-100'' Complete 1 (DateStr ''2025-11-01T09:00:00.000Z''),
      sample_result ''new'' ''ST002-200'' Complete 1 (DateObj 1760947200000)]
     (requestSort key_processingDate initialResultsViewState) =
   [sample_result ''old'' ''ST001-100'' Complete 1 (DateStr ''2025-11-01T09:00:00.000Z''),
    sample_result ''new'' ''ST002-200'' Complete 1 (DateObj 1760947200000)] \<and>
   date_lt (newDate utc_platform (DateObj 1760947200000))
           (newDate utc_platform (DateStr ''2025-11-01T09:00:00.000Z''))"
proof -
  have cfg: "sortConfig (requestSort key_processingDate initialResultsViewState) =
     Some (key_processingDate, asc)"
    by (simp add: requestSort_toggle initialResultsViewState_def)
  have cmp: "compareResults utc_platform (key_processingDate, asc)
     (sample_result ''old'' ''ST001-100'' Complete 1 (DateStr ''2025-11-01T09:00:00.000Z''))
     (sample_result ''new'' ''ST002-200'' Complete 1 (DateObj 1760947200000)) = 0"
    by (rule compareResults_date_against_text(1)
               [where s = "''2025-11-01T09:00:00.000Z''" and t = 1760947200000])
       (simp_all add: iso_text_is_no_number)
  have sorted: "sortedResults utc_platform
     [sample_result ''old'' ''ST001-100'' Complete 1 (DateStr ''2025-11-01T09:00:00.000Z''),
      sample_result ''new'' ''ST002-200'' Complete 1 (DateObj 1760947200000)]
     (requestSort key_processingDate initialResultsViewState) =
   [sample_result ''old'' ''ST001-100'' Complete 1 (DateStr ''2025-11-01T09:00:00.000Z''),
    sample_result ''new'' ''ST002-200'' Complete 1 (DateObj 1760947200000)]"
    by (simp add: sortedResults_def cfg mixed_dates_unsorted
          mixed_dates_filtered requestSort_toggle initialResultsViewState_def)
  from cfg cmp sorted mixed_dates_order show ?thesis by (intro conjI)
qed

section \<open>Properties of the mock data generator\<close>

lemma indexOf_SECTIONS:
  "indexOf SECTIONS Data_Analytics = 0"
  "indexOf SECTIONS AI_ML = 1"
  "indexOf SECTIONS Data_Science = 2"
  "indexOf SECTIONS Generative_AI = 3"
  "indexOf SECTIONS Statistics = 4"
  by (simp_all add: SECTIONS_def)

lemma CORRECT_ANSWERS_nth:
  "q < 50 \<Longrightarrow> CORRECT_ANSWERS ! q = fromCharCode (65 + q mod 4)"
  by (simp add: CORRECT_ANSWERS_def)

lemma fromCharCode_inj:
  "a < 256 \<Longrightarrow> b < 256 \<Longrightarrow> fromCharCode a = fromCharCode b \<longleftrightarrow> a = b"
  by (simp add: fromCharCode_def char_of_eq_iff take_bit_nat_eq_self)

lemma wrong_answer_differs:
  "q < 50 \<Longrightarrow> fromCharCode (65 + (q + 1) mod 4) \<noteq> CORRECT_ANSWERS ! q"
proof -
  assume q: "q < 50"
  have "(q + 1) mod 4 \<noteq> q mod 4" by presburger
  then have "65 + (q + 1) mod 4 \<noteq> 65 + q mod 4" by simp
  moreover have "65 + (q + 1) mod 4 < 256" "65 + q mod 4 < 256"
    by (simp_all add: less_le_trans [OF mod_less_divisor])
  ultimately show ?thesis
    using q by (simp add: CORRECT_ANSWERS_nth fromCharCode_inj)
qed

lemma answer_loop:
  assumes "n \<le> 10" "indexOf SECTIONS s < 5"
  shows "\<exists>new g'.
           fold (answer_step s) [0..<n] (sc, ans, g) =
             (sc + 2 * length (filter isCorrect new), ans @ new, g') \<and>
           map question new = [indexOf SECTIONS s * 10 + 1 ..< indexOf SECTIONS s * 10 + n + 1] \<and>
           (\<forall>a \<in> set new. isCorrect a \<longleftrightarrow> studentAnswer a = correctAnswer a)"
  using assms(1)
proof (induction n)
  case 0
  show ?case by (rule exI [of _ "[]"]) simp
next
  case (Suc n)
  then obtain new g' where
    run: "fold (answer_step s) [0..<n] (sc, ans, g) =
            (sc + 2 * length (filter isCorrect new), ans @ new, g')" and
    qs: "map question new = [indexOf SECTIONS s * 10 + 1 ..< indexOf SECTIONS s * 10 + n + 1]" and
    ok: "\<forall>a \<in> set new. isCorrect a \<longleftrightarrow> studentAnswer a = correctAnswer a"
    by auto
  define q where "q = indexOf SECTIONS s * 10 + n"
  have q: "q < 50" using Suc.prems assms(2) by (simp add: q_def)
  define a where "a =
    \<lparr> question = q + 1,
      studentAnswer = (if shd g' > 0.3 then CORRECT_ANSWERS ! q
                       else fromCharCode (65 + (q + 1) mod 4)),
      correctAnswer = CORRECT_ANSWERS ! q,
      isCorrect = (shd g' > 0.3) \<rparr>"
  have step: "fold (answer_step s) [0..<Suc n] (sc, ans, g) =
      (sc + 2 * length (filter isCorrect (new @ [a])), ans @ (new @ [a]), stl g')"
    by (simp add: run answer_step_def Math_random_def Let_def a_def q_def)
  have a_ok: "isCorrect a \<longleftrightarrow> studentAnswer a = correctAnswer a"
    using wrong_answer_differs [OF q] by (simp add: a_def)
  have a_q: "map question (new @ [a]) =
      [indexOf SECTIONS s * 10 + 1 ..< indexOf SECTIONS s * 10 + Suc n + 1]"
    by (simp add: qs a_def q_def)
  show ?case
    apply (rule exI [of _ "new @ [a]"])
    apply (rule exI [of _ "stl g'"])
    using step a_q ok a_ok by auto
qed

lemma section_step_spec:
  assumes "indexOf SECTIONS s < 5"
  shows "\<exists>new.
           map question new = [indexOf SECTIONS s * 10 + 1 ..< indexOf SECTIONS s * 10 + 11] \<and>
           (\<forall>a \<in> set new. isCorrect a \<longleftrightarrow> studentAnswer a = correctAnswer a) \<and>
           gs_answers (section_step s st) = gs_answers st @ new \<and>
           gs_totalScore (section_step s st) =
             gs_totalScore st + 2 * length (filter isCorrect new) \<and>
           gs_sectionScores (section_step s st) =
             (gs_sectionScores st)(s \<mapsto> 2 * length (filter isCorrect new))"
proof -
  obtain new g' where
    run: "fold (answer_step s) [0..<10] (0, gs_answers st, gs_rng st) =
            (0 + 2 * length (filter isCorrect new), gs_answers st @ new, g')" and
    qs: "map question new = [indexOf SECTIONS s * 10 + 1 ..< indexOf SECTIONS s * 10 + 10 + 1]" and
    ok: "\<forall>a \<in> set new. isCorrect a \<longleftrightarrow> studentAnswer a = correctAnswer a"
    using answer_loop [of 10 s 0 "gs_answers st" "gs_rng st"] assms by auto
  show ?thesis
    apply (rule exI [of _ new])
    using qs ok by (simp add: section_step_def run add.commute)
qed


lemma generated_sections:
  fixes g1 :: rng
  defines "st \<equiv> fold section_step SECTIONS
                   \<lparr> gs_sectionScores = Map.empty, gs_totalScore = 0,
                     gs_answers = [], gs_rng = g1 \<rparr>"
  shows "\<exists>n0 n1 n2 n3 n4.
           map question n0 = [1 ..< 11] \<and> map question n1 = [11 ..< 21] \<and>
           map question n2 = [21 ..< 31] \<and> map question n3 = [31 ..< 41] \<and>
           map question n4 = [41 ..< 51] \<and>
           (\<forall>a \<in> set (n0 @ n1 @ n2 @ n3 @ n4).
              isCorrect a \<longleftrightarrow> studentAnswer a = correctAnswer a) \<and>
           gs_answers st = n0 @ n1 @ n2 @ n3 @ n4 \<and>
           gs_totalScore st =
             2 * length (filter isCorrect n0) + 2 * length (filter isCorrect n1) +
             2 * length (filter isCorrect n2) + 2 * length (filter isCorrect n3) +
             2 * length (filter isCorrect n4) \<and>
           gs_sectionScores st =
             [Data_Analytics \<mapsto> 2 * length (filter isCorrect n0),
              AI_ML \<mapsto> 2 * length (filter isCorrect n1),
              Data_Science \<mapsto> 2 * length (filter isCorrect n2),
              Generative_AI \<mapsto> 2 * length (filter isCorrect n3),
              Statistics \<mapsto> 2 * length (filter isCorrect n4)]"
proof -
  define s0 where "s0 = \<lparr> gs_sectionScores = Map.empty, gs_totalScore = 0,
                          gs_answers = [], gs_rng = g1 \<rparr>"
  define s1 where "s1 = section_step Data_Analytics s0"
  define s2 where "s2 = section_step AI_ML s1"
  define s3 where "s3 = section_step Data_Science s2"
  define s4 where "s4 = section_step Generative_AI s3"
  define s5 where "s5 = section_step Statistics s4"
  have st: "st = s5"
    by (simp add: st_def SECTIONS_def s5_def s4_def s3_def s2_def s1_def s0_def)
  have s0: "gs_answers s0 = []" "gs_totalScore s0 = 0" "gs_sectionScores s0 = Map.empty"
    by (simp_all add: s0_def)
  have "\<exists>n. map question n = [0 * 10 + 1 ..< 0 * 10 + 11] \<and>
       (\<forall>a \<in> set n. isCorrect a \<longleftrightarrow> studentAnswer a = correctAnswer a) \<and>
       gs_answers s1 = gs_answers s0 @ n \<and>
       gs_totalScore s1 = gs_totalScore s0 + 2 * length (filter isCorrect n) \<and>
       gs_sectionScores s1 =
         (gs_sectionScores s0)(Data_Analytics \<mapsto> 2 * length (filter isCorrect n))"
    using section_step_spec [of Data_Analytics s0]
    unfolding indexOf_SECTIONS s1_def by simp
  then obtain n0 where n0:
    "map question n0 = [0 * 10 + 1 ..< 0 * 10 + 11]"
    "\<forall>a \<in> set n0. isCorrect a \<longleftrightarrow> studentAnswer a = correctAnswer a"
    "gs_answers s1 = gs_answers s0 @ n0"
    "gs_totalScore s1 = gs_totalScore s0 + 2 * length (filter isCorrect n0)"
    "gs_sectionScores s1 =
       (gs_sectionScores s0)(Data_Analytics \<mapsto> 2 * length (filter isCorrect n0))"
    by blast
  have "\<exists>n. map question n = [1 * 10 + 1 ..< 1 * 10 + 11] \<and>
       (\<forall>a \<in> set n. isCorrect a \<longleftrightarrow> studentAnswer a = correctAnswer a) \<and>
       gs_answers s2 = gs_answers s1 @ n \<and>
       gs_totalScore s2 = gs_totalScore s1 + 2 * length (filter isCorrect n) \<and>
       gs_sectionScores s2 =
         (gs_sectionScores s1)(AI_ML \<mapsto> 2 * length (filter isCorrect n))"
    using section_step_spec [of AI_ML s1]
    unfolding indexOf_SECTIONS s2_def by simp
  then obtain n1 where n1:
    "map question n1 = [1 * 10 + 1 ..< 1 * 10 + 11]"
    "\<forall>a \<in> set n1. isCorrect a \<longleftrightarrow> studentAnswer a = correctAnswer a"
    "gs_answers s2 = gs_answers s1 @ n1"
    "gs_totalScore s2 = gs_totalScore s1 + 2 * length (filter isCorrect n1)"
    "gs_sectionScores s2 =
       (gs_sectionScores s1)(AI_ML \<mapsto> 2 * length (filter isCorrect n1))"
    by blast
  have "\<exists>n. map question n = [2 * 10 + 1 ..< 2 * 10 + 11] \<and>
       (\<forall>a \<in> set n. isCorrect a \<longleftrightarrow> studentAnswer a = correctAnswer a) \<and>
       gs_answers s3 = gs_answers s2 @ n \<and>
       gs_totalScore s3 = gs_totalScore s2 + 2 * length (filter isCorrect n) \<and>
       gs_sectionScores s3 =
         (gs_sectionScores s2)(Data_Science \<mapsto> 2 * length (filter isCorrect n))"
    using section_step_spec [of Data_Science s2]
    unfolding indexOf_SECTIONS s3_def by simp
  then obtain n2 where n2:
    "map question n2 = [2 * 10 + 1 ..< 2 * 10 + 11]"
    "\<forall>a \<in> set n2. isCorrect a \<longleftrightarrow> studentAnswer a = correctAnswer a"
    "gs_answers s3 = gs_answers s2 @ n2"
    "gs_totalScore s3 = gs_totalScore s2 + 2 * length (filter isCorrect n2)"
    "gs_sectionScores s3 =
       (gs_sectionScores s2)(Data_Science \<mapsto> 2 * length (filter isCorrect n2))"
    by blast
  have "\<exists>n. map question n = [3 * 10 + 1 ..< 3 * 10 + 11] \<and>
       (\<forall>a \<in> set n. isCorrect a \<longleftrightarrow> studentAnswer a = correctAnswer a) \<and>
       gs_answers s4 = gs_answers s3 @ n \<and>
       gs_totalScore s4 = gs_totalScore s3 + 2 * length (filter isCorrect n) \<and>
       gs_sectionScores s4 =
         (gs_sectionScores s3)(Generative_AI \<mapsto> 2 * length (filter isCorrect n))"
    using section_step_spec [of Generative_AI s3]
    unfolding indexOf_SECTIONS s4_def by simp
  then obtain n3 where n3:
    "map question n3 = [3 * 10 + 1 ..< 3 * 10 + 11]"
    "\<forall>a \<in> set n3. isCorrect a \<longleftrightarrow> studentAnswer a = correctAnswer a"
    "gs_answers s4 = gs_answers s3 @ n3"
    "gs_totalScore s4 = gs_totalScore s3 + 2 * length (filter isCorrect n3)"
    "gs_sectionScores s4 =
       (gs_sectionScores s3)(Generative_AI \<mapsto> 2 * length (filter isCorrect n3))"
    by blast
  have "\<exists>n. map question n = [4 * 10 + 1 ..< 4 * 10 + 11] \<and>
       (\<forall>a \<in> set n. isCorrect a \<longleftrightarrow> studentAnswer a = correctAnswer a) \<and>
       gs_answers s5 = gs_answers s4 @ n \<and>
       gs_totalScore s5 = gs_totalScore s4 + 2 * length (filter isCorrect n) \<and>
       gs_sectionScores s5 =
         (gs_sectionScores s4)(Statistics \<mapsto> 2 * length (filter isCorrect n))"
    using section_step_spec [of Statistics s4]
    unfolding indexOf_SECTIONS s5_def by simp
  then obtain n4 where n4:
    "map question n4 = [4 * 10 + 1 ..< 4 * 10 + 11]"
    "\<forall>a \<in> set n4. isCorrect a \<longleftrightarrow> studentAnswer a = correctAnswer a"
    "gs_answers s5 = gs_answers s4 @ n4"
    "gs_totalScore s5 = gs_totalScore s4 + 2 * length (filter isCorrect n4)"
    "gs_sectionScores s5 =
       (gs_sectionScores s4)(Statistics \<mapsto> 2 * length (filter isCorrect n4))"
    by blast
  have nums: "[0 * 10 + 1 ..< 0 * 10 + 11] = [1 ..< 11]" "[1 * 10 + 1 ..< 1 * 10 + 11] = [11 ..< 21]"
    "[2 * 10 + 1 ..< 2 * 10 + 11] = [21 ..< 31]" "[3 * 10 + 1 ..< 3 * 10 + 11] = [31 ..< 41]"
    "[4 * 10 + 1 ..< 4 * 10 + 11] = [41 ..< (51::nat)]"
    by (simp_all del: upt_rec_numeral)
  have ans: "gs_answers st = n0 @ n1 @ n2 @ n3 @ n4"
    by (simp add: st n4(3) n3(3) n2(3) n1(3) n0(3) s0)
  have tot: "gs_totalScore st =
             2 * length (filter isCorrect n0) + 2 * length (filter isCorrect n1) +
             2 * length (filter isCorrect n2) + 2 * length (filter isCorrect n3) +
             2 * length (filter isCorrect n4)"
    by (simp add: st n4(4) n3(4) n2(4) n1(4) n0(4) s0)
  have sec: "gs_sectionScores st =
             [Data_Analytics \<mapsto> 2 * length (filter isCorrect n0),
              AI_ML \<mapsto> 2 * length (filter isCorrect n1),
              Data_Science \<mapsto> 2 * length (filter isCorrect n2),
              Generative_AI \<mapsto> 2 * length (filter isCorrect n3),
              Statistics \<mapsto> 2 * length (filter isCorrect n4)]"
    by (simp only: st n4(5) n3(5) n2(5) n1(5) n0(5) s0)
  have ok: "\<forall>a \<in> set (n0 @ n1 @ n2 @ n3 @ n4).
              isCorrect a \<longleftrightarrow> studentAnswer a = correctAnswer a"
    using n0(2) n1(2) n2(2) n3(2) n4(2) by (simp only: set_append Un_iff) blast
  from n0(1) n1(1) n2(1) n3(1) n4(1) ok ans tot sec show ?thesis
    unfolding nums by blast
qed


lemma upt_split: "a \<le> b \<Longrightarrow> b \<le> c \<Longrightarrow> [a ..< c] = [a ..< b] @ [b ..< c]"
  using upt_add_eq_append [of a b "c - b"] by simp

lemma question_range:
  assumes "map question xs = [lo ..< hi]"
  shows "\<forall>a \<in> set xs. lo \<le> question a \<and> question a < hi" and "length xs = hi - lo"
proof -
  have "set (map question xs) = {lo ..< hi}" by (simp add: assms)
  then show "\<forall>a \<in> set xs. lo \<le> question a \<and> question a < hi" by auto
  have "length (map question xs) = hi - lo" by (simp add: assms)
  then show "length xs = hi - lo" by simp
qed

lemma filter_other_section:
  assumes "\<forall>a \<in> set xs. lo \<le> question a \<and> question a < hi" "hi \<le> l + 1 \<or> h < lo"
  shows "filter (\<lambda>a. isCorrect a \<and> l < question a \<and> question a \<le> h) xs = []"
  using assms by (auto simp: filter_empty_conv)

lemma filter_own_section:
  assumes "\<forall>a \<in> set xs. lo \<le> question a \<and> question a < hi" "l < lo" "hi \<le> h + 1"
  shows "filter (\<lambda>a. isCorrect a \<and> l < question a \<and> question a \<le> h) xs = filter isCorrect xs"
  using assms by (intro filter_cong) auto

text \<open>
  Claim C3. Every generated result is plausible: its answers are the questions 1 to 50 in
  order, one entry each; an answer is marked correct exactly when the student's answer is
  the correct answer; the score of the section at position \<open>k\<close> of \<^verbatim>\<open>SECTIONS\<close> is twice
  the number of correct answers among the questions \<open>10 * k + 1\<close> to \<open>10 * k + 10\<close>, at
  most 20; and the total score is the sum of the five section scores, at most 100.
\<close>

theorem generateMockResult_plausible:
  "let r = fst (generateMockResult plat now file index g)
   in map question (answers r) = [1 ..< 51] \<and>
      (\<forall>a \<in> set (answers r). isCorrect a \<longleftrightarrow> studentAnswer a = correctAnswer a) \<and>
      (\<forall>k < 5. \<exists>n \<le> 20.
          sectionScores r (SECTIONS ! k) = Some n \<and>
          n = 2 * length (filter (\<lambda>a. isCorrect a \<and> 10 * k < question a \<and>
                                         question a \<le> 10 * k + 10) (answers r))) \<and>
      totalScore r = (\<Sum>s \<leftarrow> SECTIONS. the (sectionScores r s)) \<and>
      totalScore r \<le> 100"
proof -
  define r where "r = fst (generateMockResult plat now file index g)"
  define st where "st = fold section_step SECTIONS
                   \<lparr> gs_sectionScores = Map.empty, gs_totalScore = 0,
                     gs_answers = [], gs_rng = stl g \<rparr>"
  have r: "answers r = gs_answers st" "totalScore r = gs_totalScore st"
          "sectionScores r = gs_sectionScores st"
    by (simp_all add: r_def st_def generateMockResult_def Math_random_def Let_def
          split_beta)
  obtain n0 n1 n2 n3 n4 where
    q: "map question n0 = [1 ..< 11]" "map question n1 = [11 ..< 21]"
       "map question n2 = [21 ..< 31]" "map question n3 = [31 ..< 41]"
       "map question n4 = [41 ..< 51]" and
    ok: "\<forall>a \<in> set (n0 @ n1 @ n2 @ n3 @ n4).
           isCorrect a \<longleftrightarrow> studentAnswer a = correctAnswer a" and
    ans: "gs_answers st = n0 @ n1 @ n2 @ n3 @ n4" and
    tot: "gs_totalScore st =
            2 * length (filter isCorrect n0) + 2 * length (filter isCorrect n1) +
            2 * length (filter isCorrect n2) + 2 * length (filter isCorrect n3) +
            2 * length (filter isCorrect n4)" and
    sec: "gs_sectionScores st =
            [Data_Analytics \<mapsto> 2 * length (filter isCorrect n0),
             AI_ML \<mapsto> 2 * length (filter isCorrect n1),
             Data_Science \<mapsto> 2 * length (filter isCorrect n2),
             Generative_AI \<mapsto> 2 * length (filter isCorrect n3),
             Statistics \<mapsto> 2 * length (filter isCorrect n4)]"
    using generated_sections [of "stl g"] unfolding st_def [symmetric] by blast
  note rng = question_range(1) [OF q(1)] question_range(1) [OF q(2)]
    question_range(1) [OF q(3)] question_range(1) [OF q(4)] question_range(1) [OF q(5)]
  have len: "length n0 = 10" "length n1 = 10" "length n2 = 10" "length n3 = 10"
    "length n4 = 10"
    using question_range(2) [OF q(1)] question_range(2) [OF q(2)]
      question_range(2) [OF q(3)] question_range(2) [OF q(4)] question_range(2) [OF q(5)]
    by simp_all
  have le: "length (filter isCorrect n0) \<le> 10" "length (filter isCorrect n1) \<le> 10"
    "length (filter isCorrect n2) \<le> 10" "length (filter isCorrect n3) \<le> 10"
    "length (filter isCorrect n4) \<le> 10"
    using length_filter_le [of isCorrect n0] length_filter_le [of isCorrect n1]
      length_filter_le [of isCorrect n2] length_filter_le [of isCorrect n3]
      length_filter_le [of isCorrect n4] by (simp_all add: len)
  have questions: "map question (answers r) = [1 ..< 51]"
  proof -
    have "[31 ..< (51::nat)] = [31 ..< 41] @ [41 ..< 51]" by (rule upt_split) simp_all
    moreover have "[21 ..< (51::nat)] = [21 ..< 31] @ [31 ..< 51]" by (rule upt_split) simp_all
    moreover have "[11 ..< (51::nat)] = [11 ..< 21] @ [21 ..< 51]" by (rule upt_split) simp_all
    moreover have "[1 ..< (51::nat)] = [1 ..< 11] @ [11 ..< 51]" by (rule upt_split) simp_all
    ultimately
    have "[1 ..< (51::nat)] = [1 ..< 11] @ [11 ..< 21] @ [21 ..< 31] @ [31 ..< 41] @ [41 ..< 51]"
      by (simp only:)
    then show ?thesis by (simp add: r ans q del: upt_rec_numeral)
  qed
  have correct: "\<forall>a \<in> set (answers r). isCorrect a \<longleftrightarrow> studentAnswer a = correctAnswer a"
    using ok by (simp only: r ans)
  have f0: "filter (\<lambda>a. isCorrect a \<and> 10 * 0 < question a \<and> question a \<le> 10 * 0 + 10)
              (answers r) = filter isCorrect n0"
    by (simp add: r ans filter_own_section [OF rng(1)] filter_other_section [OF rng(2)]
          filter_other_section [OF rng(3)] filter_other_section [OF rng(4)]
          filter_other_section [OF rng(5)])
  have f1: "filter (\<lambda>a. isCorrect a \<and> 10 * 1 < question a \<and> question a \<le> 10 * 1 + 10)
              (answers r) = filter isCorrect n1"
    by (simp add: r ans filter_own_section [OF rng(2)] filter_other_section [OF rng(1)]
          filter_other_section [OF rng(3)] filter_other_section [OF rng(4)]
          filter_other_section [OF rng(5)])
  have f2: "filter (\<lambda>a. isCorrect a \<and> 10 * 2 < question a \<and> question a \<le> 10 * 2 + 10)
              (answers r) = filter isCorrect n2"
    by (simp add: r ans filter_own_section [OF rng(3)] filter_other_section [OF rng(1)]
          filter_other_section [OF rng(2)] filter_other_section [OF rng(4)]
          filter_other_section [OF rng(5)])
  have f3: "filter (\<lambda>a. isCorrect a \<and> 10 * 3 < question a \<and> question a \<le> 10 * 3 + 10)
              (answers r) = filter isCorrect n3"
    by (simp add: r ans filter_own_section [OF rng(4)] filter_other_section [OF rng(1)]
          filter_other_section [OF rng(2)] filter_other_section [OF rng(3)]
          filter_other_section [OF rng(5)])
  have f4: "filter (\<lambda>a. isCorrect a \<and> 10 * 4 < question a \<and> question a \<le> 10 * 4 + 10)
              (answers r) = filter isCorrect n4"
    by (simp add: r ans filter_own_section [OF rng(5)] filter_other_section [OF rng(1)]
          filter_other_section [OF rng(2)] filter_other_section [OF rng(3)]
          filter_other_section [OF rng(4)])
  have sections: "\<forall>k < 5. \<exists>n \<le> 20.
          sectionScores r (SECTIONS ! k) = Some n \<and>
          n = 2 * length (filter (\<lambda>a. isCorrect a \<and> 10 * k < question a \<and>
                                         question a \<le> 10 * k + 10) (answers r))"
  proof (intro allI impI)
    fix k :: nat assume "k < 5"
    then consider "k = 0" | "k = 1" | "k = 2" | "k = 3" | "k = 4" by linarith
    then show "\<exists>n \<le> 20.
          sectionScores r (SECTIONS ! k) = Some n \<and>
          n = 2 * length (filter (\<lambda>a. isCorrect a \<and> 10 * k < question a \<and>
                                         question a \<le> 10 * k + 10) (answers r))"
    proof cases
      case 1 then show ?thesis using le(1) by (simp only: f0) (simp add: r sec SECTIONS_def)
    next
      case 2 then show ?thesis using le(2) by (simp only: f1) (simp add: r sec SECTIONS_def)
    next
      case 3 then show ?thesis using le(3) by (simp only: f2) (simp add: r sec SECTIONS_def)
    next
      case 4 then show ?thesis using le(4) by (simp only: f3) (simp add: r sec SECTIONS_def)
    next
      case 5 then show ?thesis using le(5) by (simp only: f4) (simp add: r sec SECTIONS_def)
    qed
  qed
  have total: "totalScore r = (\<Sum>s \<leftarrow> SECTIONS. the (sectionScores r s))"
    by (simp add: r tot sec SECTIONS_def)
  have bound: "totalScore r \<le> 100"
    using le by (simp add: r tot)
  from questions correct sections total bound show ?thesis
    unfolding Let_def r_def by blast
qed

lemma upt10: "[0 ..< 10] = [0, 1, 2, 3, 4, 5, 6, 7, 8, 9 :: nat]"
  by code_simp

lemma section_step_all_correct:
  "section_step s \<lparr> gs_sectionScores = m, gs_totalScore = t, gs_answers = ans,
                    gs_rng = sconst (1 / 2) \<rparr> =
   \<lparr> gs_sectionScores = m(s \<mapsto> 20), gs_totalScore = t + 20,
     gs_answers = ans @ map (\<lambda>i. \<lparr> question = indexOf SECTIONS s * 10 + i + 1,
                        studentAnswer = CORRECT_ANSWERS ! (indexOf SECTIONS s * 10 + i),
                        correctAnswer = CORRECT_ANSWERS ! (indexOf SECTIONS s * 10 + i),
                        isCorrect = True \<rparr>) [0 ..< 10],
     gs_rng = sconst (1 / 2) \<rparr>"
  by (simp add: section_step_def answer_step_def Math_random_def Let_def upt10)
     (simp add: eval_nat_numeral)

lemma generateMockResult_example:
  "totalScore (fst (generateMockResult utc_platform 1762084800123 (sample_file ''f1'') 0
                      (sconst (1 / 2)))) = 100 \<and>
   sectionScores (fst (generateMockResult utc_platform 1762084800123 (sample_file ''f1'') 0
                      (sconst (1 / 2)))) Data_Analytics = Some 20 \<and>
   status (fst (generateMockResult utc_platform 1762084800123 (sample_file ''f1'') 0
                      (sconst (1 / 2)))) = Complete"
  by (simp add: generateMockResult_def Math_random_def Let_def SECTIONS_def
        section_step_all_correct)

theorem generateMockResult_plausible_witness:
  "length (answers (fst (generateMockResult utc_platform 1762084800123 (sample_file ''f1'') 0
                           (sconst (1 / 2))))) = 50 \<and>
   sectionScores (fst (generateMockResult utc_platform 1762084800123 (sample_file ''f1'') 0
                         (sconst (1 / 2)))) (SECTIONS ! 0) = Some 20 \<and>
   totalScore (fst (generateMockResult utc_platform 1762084800123 (sample_file ''f1'') 0
                      (sconst (1 / 2)))) = 100"
proof -
  have "map question (answers (fst (generateMockResult utc_platform 1762084800123
          (sample_file ''f1'') 0 (sconst (1 / 2))))) = [1 ..< 51]"
    using generateMockResult_plausible [of utc_platform 1762084800123 "sample_file ''f1''" 0
            "sconst (1 / 2)"]
    by (simp add: Let_def)
  then have "length (map question (answers (fst (generateMockResult utc_platform 1762084800123
          (sample_file ''f1'') 0 (sconst (1 / 2)))))) = 50"
    by simp
  then show ?thesis
    using generateMockResult_example by (simp add: SECTIONS_def)
qed

section \<open>Properties of persistence\<close>

lemma as_nat_real [simp]: "as_nat (JNum (real n)) = Some n"
  by (simp add: as_nat_def)



lemma as_status_string [simp]: "as_status (JStr (status_string s)) = Some s"
  by (cases s) (simp_all add: as_status_def status_string_def)

lemma as_examSet_string [simp]: "as_examSet (JStr (examSet_string e)) = Some e"
  by (cases e) (simp_all add: as_examSet_def examSet_string_def)












lemma save_effect_first_render:
  "isInitialMount st \<Longrightarrow> snd (save_effect plat st store) = store"
  by (simp add: save_effect_def)


lemma mount_empty:
  "mount plat Map.empty = Some (initialAppState\<lparr>isInitialMount := False\<rparr>, Map.empty)"
  by (simp add: mount_def load_effect_def load_total_def save_effect_def initialAppState_def)





section \<open>Properties of the processing pipeline\<close>

lemma length_setFileProgress [simp]: "length (setFileProgress index p s prev) = length prev"
  by (simp add: setFileProgress_def)

lemma nth_setFileProgress:
  "i < length prev \<Longrightarrow>
   setFileProgress index p s prev ! i =
     (if i = index then (prev ! i)\<lparr>file_progress := p, file_status := s\<rparr> else prev ! i)"
  by (simp add: setFileProgress_def nth_enumerate_eq)

lemma stages_of_last:
  "stages \<in> {stages_of True, stages_of False} \<Longrightarrow> k < length stages \<Longrightarrow>
   stages ! k \<noteq> complete \<Longrightarrow> stages ! k \<noteq> error \<Longrightarrow> Suc k < length stages"
  by (auto simp: stages_of_def less_Suc_eq nth_Cons' split: if_splits)

lemma stages_of_next:
  "stages \<in> {stages_of True, stages_of False} \<Longrightarrow> 0 < length stages"
  by (auto simp: stages_of_def)

lemma filter_upt_Cons:
  "index < n \<Longrightarrow>
   filter P [index ..< n] = (if P index then [index] else []) @ filter P [Suc index ..< n]"
  by (simp add: upt_conv_Cons)

lemma processFile_updateProgress_run:
  "(\<forall>index st ps.
      processFile fuel plat clock files index st = Some ps \<longrightarrow>
      length (processedFiles st) = length files \<longrightarrow>
        length (processedFiles ps) = length files \<and>
        (\<forall>i < length files.
           file_id (processedFiles ps ! i) = file_id (processedFiles st ! i) \<and>
           (i < index \<longrightarrow> processedFiles ps ! i = processedFiles st ! i) \<and>
           (index \<le> i \<longrightarrow> file_status (processedFiles ps ! i) \<in> {complete, error})) \<and>
        (\<exists>new. generatedResults ps = generatedResults st @ new \<and>
           list_all2
             (\<lambda>res i. \<exists>g. res = fst (generateMockResult plat (clock i) (files ! i) i g))
             new
             (filter (\<lambda>i. file_status (processedFiles ps ! i) = complete)
                [index ..< length files]))) \<and>
   (\<forall>index stages k p st ps.
      updateProgress fuel plat clock files index stages k p st = Some ps \<longrightarrow>
      length (processedFiles st) = length files \<longrightarrow>
      index < length files \<longrightarrow>
      stages \<in> {stages_of True, stages_of False} \<longrightarrow>
      k < length stages \<longrightarrow>
        length (processedFiles ps) = length files \<and>
        (\<forall>i < length files.
           file_id (processedFiles ps ! i) = file_id (processedFiles st ! i) \<and>
           (i < index \<longrightarrow> processedFiles ps ! i = processedFiles st ! i) \<and>
           (index \<le> i \<longrightarrow> file_status (processedFiles ps ! i) \<in> {complete, error})) \<and>
        (\<exists>new. generatedResults ps = generatedResults st @ new \<and>
           list_all2
             (\<lambda>res i. \<exists>g. res = fst (generateMockResult plat (clock i) (files ! i) i g))
             new
             (filter (\<lambda>i. file_status (processedFiles ps ! i) = complete)
                [index ..< length files])))"
  (is "(\<forall>index st ps. ?run index st ps \<longrightarrow> ?len st \<longrightarrow> ?R index st ps) \<and>
       (\<forall>index stages k p st ps. ?upd index stages k p st ps \<longrightarrow> ?len st \<longrightarrow> _ \<longrightarrow> _ \<longrightarrow> _ \<longrightarrow>
          ?R index st ps)")
proof (induction fuel)
  case 0
  show ?case by simp
next
  case (Suc fuel)
  then have IHp: "\<And>index st ps. processFile fuel plat clock files index st = Some ps \<Longrightarrow>
      length (processedFiles st) = length files \<Longrightarrow> ?R index st ps"
    and IHu: "\<And>index stages k p st ps.
      updateProgress fuel plat clock files index stages k p st = Some ps \<Longrightarrow>
      length (processedFiles st) = length files \<Longrightarrow> index < length files \<Longrightarrow>
      stages \<in> {stages_of True, stages_of False} \<Longrightarrow> k < length stages \<Longrightarrow>
      ?R index st ps"
    by blast+
  have P: "?R index st ps"
    if run: "processFile (Suc fuel) plat clock files index st = Some ps"
      and len: "length (processedFiles st) = length files" for index st ps
  proof (cases "length files \<le> index")
    case True
    with run have "ps = st" by simp
    with True len show ?thesis by simp
  next
    case False
    define g where "g = stl (ps_rng st)"
    define stages where "stages = stages_of (shd (ps_rng st) < 0.1)"
    from run False
    have "updateProgress fuel plat clock files index stages 0 0 (st\<lparr>ps_rng := g\<rparr>) = Some ps"
      by (simp add: Math_random_def g_def stages_def)
    from IHu [OF this] len False
    have "?R index (st\<lparr>ps_rng := g\<rparr>) ps"
      by (simp add: stages_def stages_of_def)
    then show ?thesis by simp
  qed
  have Q: "?R index st ps"
    if upd: "updateProgress (Suc fuel) plat clock files index stages k p st = Some ps"
      and len: "length (processedFiles st) = length files"
      and index: "index < length files"
      and stages: "stages \<in> {stages_of True, stages_of False}"
      and k: "k < length stages" for index stages k p st ps
  proof -
    define r where "r = shd (ps_rng st)"
    define g where "g = stl (ps_rng st)"
    define p1 where "p1 = p + r * 15"
    define k' where "k' = (if p1 \<ge> 100 \<and> k < length stages - 1 then k + 1 else k)"
    define p' where "p' = (if p1 \<ge> 100 then (if k < length stages - 1 then 0 else 100) else p1)"
    define stage where "stage = stages ! k'"
    define st1 where
      "st1 = st\<lparr>processedFiles := setFileProgress index p' stage (processedFiles st),
                ps_rng := g\<rparr>"
    have k': "k' < length stages"
      using k by (auto simp: k'_def)
    have len1: "length (processedFiles st1) = length files"
      using len by (simp add: st1_def)
    have nth1: "processedFiles st1 ! i =
        (if i = index then (processedFiles st ! i)\<lparr>file_progress := p', file_status := stage\<rparr>
         else processedFiles st ! i)" if "i < length files" for i
      using that len by (simp add: st1_def nth_setFileProgress)
    have gen1: "generatedResults st1 = generatedResults st"
      by (simp add: st1_def)
    have step: "updateProgress (Suc fuel) plat clock files index stages k p st =
      (if stage = complete \<or> stage = error
       then
         (if stage = complete
          then processFile fuel plat clock files (index + 1)
                 (st1\<lparr>generatedResults := generatedResults st1 @
                        [fst (generateMockResult plat (clock index) (files ! index) index
                                (ps_rng st1))],
                      ps_rng := snd (generateMockResult plat (clock index) (files ! index) index
                                (ps_rng st1))\<rparr>)
          else processFile fuel plat clock files (index + 1) st1)
       else updateProgress fuel plat clock files index stages k' p'
              (st1\<lparr>ps_rng := stl (ps_rng st1)\<rparr>))"
      by (simp add: Math_random_def Let_def split_beta r_def g_def p1_def k'_def p'_def
            stage_def st1_def)
    consider (complete) "stage = complete" | (error) "stage = error"
      | (other) "stage \<noteq> complete" "stage \<noteq> error"
      by blast
    then show ?thesis
    proof cases
      case complete
      define res where
        "res = fst (generateMockResult plat (clock index) (files ! index) index (ps_rng st1))"
      define st2 where
        "st2 = st1\<lparr>generatedResults := generatedResults st1 @ [res],
                  ps_rng := snd (generateMockResult plat (clock index) (files ! index) index
                                (ps_rng st1))\<rparr>"
      from upd complete
      have "processFile fuel plat clock files (index + 1) st2 = Some ps"
        unfolding step by (simp add: st2_def res_def)
      from IHp [OF this] len1
      have R: "?R (index + 1) st2 ps"
        by (simp add: st2_def)
      have files2: "processedFiles st2 = processedFiles st1"
        by (simp add: st2_def)
      from R have lenps: "length (processedFiles ps) = length files"
        by blast
      from R index have at: "processedFiles ps ! index = processedFiles st2 ! index"
        by simp
      then have status: "file_status (processedFiles ps ! index) = complete"
        using index complete by (simp add: files2 nth1)
      from R obtain new where new: "generatedResults ps = generatedResults st2 @ new"
        and all2: "list_all2
             (\<lambda>res i. \<exists>g. res = fst (generateMockResult plat (clock i) (files ! i) i g))
             new
             (filter (\<lambda>i. file_status (processedFiles ps ! i) = complete)
                [index + 1 ..< length files])"
        by blast
      have a: "\<forall>i < length files.
           file_id (processedFiles ps ! i) = file_id (processedFiles st ! i) \<and>
           (i < index \<longrightarrow> processedFiles ps ! i = processedFiles st ! i) \<and>
           (index \<le> i \<longrightarrow> file_status (processedFiles ps ! i) \<in> {complete, error})"
      proof (intro allI impI)
        fix i assume i: "i < length files"
        with R have 1: "file_id (processedFiles ps ! i) = file_id (processedFiles st2 ! i)"
          and 2: "i < index + 1 \<longrightarrow> processedFiles ps ! i = processedFiles st2 ! i"
          and 3: "index + 1 \<le> i \<longrightarrow> file_status (processedFiles ps ! i) \<in> {complete, error}"
          by blast+
        show "file_id (processedFiles ps ! i) = file_id (processedFiles st ! i) \<and>
           (i < index \<longrightarrow> processedFiles ps ! i = processedFiles st ! i) \<and>
           (index \<le> i \<longrightarrow> file_status (processedFiles ps ! i) \<in> {complete, error})"
          using 1 2 3 status i by (cases "i = index") (auto simp: files2 nth1)
      qed
      have b: "generatedResults ps = generatedResults st @ (res # new)"
        using new by (simp add: st2_def gen1)
      have c: "list_all2
             (\<lambda>res i. \<exists>g. res = fst (generateMockResult plat (clock i) (files ! i) i g))
             (res # new)
             (filter (\<lambda>i. file_status (processedFiles ps ! i) = complete)
                [index ..< length files])"
        unfolding filter_upt_Cons [OF index]
        using all2 status by (auto simp: res_def)
      from lenps a b c show ?thesis by blast
    next
      case error
      from upd error
      have "processFile fuel plat clock files (index + 1) st1 = Some ps"
        unfolding step by simp
      from IHp [OF this] len1
      have R: "?R (index + 1) st1 ps"
        by simp
      from R have lenps: "length (processedFiles ps) = length files"
        by blast
      from R index have at: "processedFiles ps ! index = processedFiles st1 ! index"
        by simp
      then have status: "file_status (processedFiles ps ! index) = error"
        using index error by (simp add: nth1)
      from R obtain new where new: "generatedResults ps = generatedResults st1 @ new"
        and all2: "list_all2
             (\<lambda>res i. \<exists>g. res = fst (generateMockResult plat (clock i) (files ! i) i g))
             new
             (filter (\<lambda>i. file_status (processedFiles ps ! i) = complete)
                [index + 1 ..< length files])"
        by blast
      have a: "\<forall>i < length files.
           file_id (processedFiles ps ! i) = file_id (processedFiles st ! i) \<and>
           (i < index \<longrightarrow> processedFiles ps ! i = processedFiles st ! i) \<and>
           (index \<le> i \<longrightarrow> file_status (processedFiles ps ! i) \<in> {complete, error})"
      proof (intro allI impI)
        fix i assume i: "i < length files"
        with R have 1: "file_id (processedFiles ps ! i) = file_id (processedFiles st1 ! i)"
          and 2: "i < index + 1 \<longrightarrow> processedFiles ps ! i = processedFiles st1 ! i"
          and 3: "index + 1 \<le> i \<longrightarrow> file_status (processedFiles ps ! i) \<in> {complete, error}"
          by blast+
        show "file_id (processedFiles ps ! i) = file_id (processedFiles st ! i) \<and>
           (i < index \<longrightarrow> processedFiles ps ! i = processedFiles st ! i) \<and>
           (index \<le> i \<longrightarrow> file_status (processedFiles ps ! i) \<in> {complete, error})"
          using 1 2 3 status i by (cases "i = index") (auto simp: nth1)
      qed
      have b: "generatedResults ps = generatedResults st @ new"
        using new by (simp add: gen1)
      have c: "list_all2
             (\<lambda>res i. \<exists>g. res = fst (generateMockResult plat (clock i) (files ! i) i g))
             new
             (filter (\<lambda>i. file_status (processedFiles ps ! i) = complete)
                [index ..< length files])"
        unfolding filter_upt_Cons [OF index]
        using all2 status by simp
      from lenps a b c show ?thesis by blast
    next
      case other
      define st2 where "st2 = st1\<lparr>ps_rng := stl (ps_rng st1)\<rparr>"
      from upd other
      have "updateProgress fuel plat clock files index stages k' p' st2 = Some ps"
        unfolding step by (simp add: st2_def)
      from IHu [OF this _ index stages k'] len1
      have R: "?R index st2 ps"
        by (simp add: st2_def)
      have files2: "processedFiles st2 = processedFiles st1"
        and gen2: "generatedResults st2 = generatedResults st"
        by (simp_all add: st2_def gen1)
      from R have lenps: "length (processedFiles ps) = length files"
        by blast
      have a: "\<forall>i < length files.
           file_id (processedFiles ps ! i) = file_id (processedFiles st ! i) \<and>
           (i < index \<longrightarrow> processedFiles ps ! i = processedFiles st ! i) \<and>
           (index \<le> i \<longrightarrow> file_status (processedFiles ps ! i) \<in> {complete, error})"
      proof (intro allI impI)
        fix i assume i: "i < length files"
        with R have 1: "file_id (processedFiles ps ! i) = file_id (processedFiles st2 ! i)"
          and 2: "i < index \<longrightarrow> processedFiles ps ! i = processedFiles st2 ! i"
          and 3: "index \<le> i \<longrightarrow> file_status (processedFiles ps ! i) \<in> {complete, error}"
          by blast+
        show "file_id (processedFiles ps ! i) = file_id (processedFiles st ! i) \<and>
           (i < index \<longrightarrow> processedFiles ps ! i = processedFiles st ! i) \<and>
           (index \<le> i \<longrightarrow> file_status (processedFiles ps ! i) \<in> {complete, error})"
          using 1 2 3 i by (cases "i = index") (auto simp: files2 nth1)
      qed
      from R have "\<exists>new. generatedResults ps = generatedResults st @ new \<and>
           list_all2
             (\<lambda>res i. \<exists>g. res = fst (generateMockResult plat (clock i) (files ! i) i g))
             new
             (filter (\<lambda>i. file_status (processedFiles ps ! i) = complete)
                [index ..< length files])"
        unfolding gen2 by blast
      with lenps a show ?thesis by blast
    qed
  qed
  show ?case
    using P Q by blast
qed

lemma processFile_step:
  "processFile (Suc fuel) plat clock files index st =
     (if index \<ge> length files then Some st
      else updateProgress fuel plat clock files index (stages_of (shd (ps_rng st) < 0.1)) 0 0
             (st\<lparr>ps_rng := stl (ps_rng st)\<rparr>))"
  by (simp add: Math_random_def)

lemma updateProgress_step:
  "updateProgress (Suc fuel) plat clock files index stages k p st =
     (if p + shd (ps_rng st) * 15 < 100
      then
        (if stages ! k = complete
         then processFile fuel plat clock files (index + 1)
                (st\<lparr>processedFiles :=
                      setFileProgress index (p + shd (ps_rng st) * 15) complete
                        (processedFiles st),
                    generatedResults := generatedResults st @
                      [fst (generateMockResult plat (clock index) (files ! index) index
                              (stl (ps_rng st)))],
                    ps_rng := snd (generateMockResult plat (clock index) (files ! index) index
                              (stl (ps_rng st)))\<rparr>)
         else if stages ! k = error
         then processFile fuel plat clock files (index + 1)
                (st\<lparr>processedFiles :=
                      setFileProgress index (p + shd (ps_rng st) * 15) error
                        (processedFiles st),
                    ps_rng := stl (ps_rng st)\<rparr>)
         else updateProgress fuel plat clock files index stages k (p + shd (ps_rng st) * 15)
                (st\<lparr>processedFiles :=
                      setFileProgress index (p + shd (ps_rng st) * 15) (stages ! k)
                        (processedFiles st),
                    ps_rng := stl (stl (ps_rng st))\<rparr>))
      else if k < length stages - 1
      then
        (if stages ! (k + 1) = complete
         then processFile fuel plat clock files (index + 1)
                (st\<lparr>processedFiles := setFileProgress index 0 complete (processedFiles st),
                    generatedResults := generatedResults st @
                      [fst (generateMockResult plat (clock index) (files ! index) index
                              (stl (ps_rng st)))],
                    ps_rng := snd (generateMockResult plat (clock index) (files ! index) index
                              (stl (ps_rng st)))\<rparr>)
         else if stages ! (k + 1) = error
         then processFile fuel plat clock files (index + 1)
                (st\<lparr>processedFiles := setFileProgress index 0 error (processedFiles st),
                    ps_rng := stl (ps_rng st)\<rparr>)
         else updateProgress fuel plat clock files index stages (k + 1) 0
                (st\<lparr>processedFiles :=
                      setFileProgress index 0 (stages ! (k + 1)) (processedFiles st),
                    ps_rng := stl (stl (ps_rng st))\<rparr>))
      else
        (if stages ! k = complete
         then processFile fuel plat clock files (index + 1)
                (st\<lparr>processedFiles := setFileProgress index 100 complete (processedFiles st),
                    generatedResults := generatedResults st @
                      [fst (generateMockResult plat (clock index) (files ! index) index
                              (stl (ps_rng st)))],
                    ps_rng := snd (generateMockResult plat (clock index) (files ! index) index
                              (stl (ps_rng st)))\<rparr>)
         else if stages ! k = error
         then processFile fuel plat clock files (index + 1)
                (st\<lparr>processedFiles := setFileProgress index 100 error (processedFiles st),
                    ps_rng := stl (ps_rng st)\<rparr>)
         else updateProgress fuel plat clock files index stages k 100
                (st\<lparr>processedFiles :=
                      setFileProgress index 100 (stages ! k) (processedFiles st),
                    ps_rng := stl (stl (ps_rng st))\<rparr>)))"
  by (simp add: Math_random_def Let_def split_beta not_le)


lemmas processFile_numeral = processFile_step [of "pred_numeral n" for n, folded numeral_eq_Suc]
lemmas updateProgress_numeral =
  updateProgress_step [of "pred_numeral n" for n, folded numeral_eq_Suc]

lemma setFileProgress_two:
  "setFileProgress 0 p s [a, b] = [a\<lparr>file_progress := p, file_status := s\<rparr>, b]"
  "setFileProgress (Suc 0) p s [a, b] = [a, b\<lparr>file_progress := p, file_status := s\<rparr>]"
  by (simp_all add: setFileProgress_def)


subsection \<open>Every run on draws that are bounded away from 0 finishes\<close>

lemma sset_sdrop: "x \<in> sset (sdrop n s) \<Longrightarrow> x \<in> sset s"
  by (induction n arbitrary: s) (auto dest: stl_sset)

lemma answer_step_rng: "snd (snd (answer_step s i x)) = stl (snd (snd x))"
  by (simp add: answer_step_def Math_random_def Let_def split_beta)

lemma fold_answer_step_rng:
  "snd (snd (fold (answer_step s) xs x)) = sdrop (length xs) (snd (snd x))"
  by (induction xs arbitrary: x) (simp_all add: answer_step_rng)

lemma section_step_rng: "gs_rng (section_step s st) = sdrop 10 (gs_rng st)"
  by (simp add: section_step_def split_beta fold_answer_step_rng)

lemma fold_section_step_rng:
  "gs_rng (fold section_step ss st) = sdrop (10 * length ss) (gs_rng st)"
  by (induction ss arbitrary: st) (simp_all add: section_step_rng sdrop_add)

lemma generateMockResult_rng:
  "snd (generateMockResult plat now f i g) = stl (stl (sdrop 50 (stl g)))"
  by (simp add: generateMockResult_def Let_def split_beta Math_random_def
        section_step_rng sdrop_add SECTIONS_def)

lemma generateMockResult_rng_bound:
  "\<forall>x \<in> sset g. c \<le> x \<Longrightarrow> \<forall>x \<in> sset (snd (generateMockResult plat now f i g)). c \<le> x"
  unfolding generateMockResult_rng
  by (blast dest: stl_sset sset_sdrop)

lemma stages_of_not_last:
  "stages \<in> {stages_of True, stages_of False} \<Longrightarrow> Suc k < length stages \<Longrightarrow>
   stages ! k \<noteq> complete \<and> stages ! k \<noteq> error"
  by (auto simp: stages_of_def less_Suc_eq nth_Cons' split: if_splits)

lemma updateProgress_stage_returns:
  fixes c :: real
  assumes c: "0 < c"
    and next_file: "\<And>st. \<forall>x \<in> sset (ps_rng st). c \<le> x \<Longrightarrow>
          \<exists>fuel ps. processFile fuel plat clock files (index + 1) st = Some ps"
    and next_stage: "\<And>st. \<forall>x \<in> sset (ps_rng st). c \<le> x \<Longrightarrow> Suc (Suc k) < length stages \<Longrightarrow>
          \<exists>fuel ps. updateProgress fuel plat clock files index stages (k + 1) 0 st = Some ps"
    and stages: "stages \<in> {stages_of True, stages_of False}"
    and k: "Suc k < length stages"
    and good0: "\<forall>x \<in> sset (ps_rng st0). c \<le> x"
    and bound0: "100 \<le> p0 + real n0 * (c * 15)"
  shows "\<exists>fuel ps. updateProgress fuel plat clock files index stages k p0 st0 = Some ps"
proof -
  have k1: "k < length stages - 1"
    using k by simp
  have advance: "\<exists>fuel ps. updateProgress fuel plat clock files index stages k p st = Some ps"
    if good: "\<forall>x \<in> sset (ps_rng st). c \<le> x" and over: "\<not> p + shd (ps_rng st) * 15 < 100"
    for p st
  proof -
    have good1: "\<forall>x \<in> sset (stl (ps_rng st)). c \<le> x"
      and good2: "\<forall>x \<in> sset (stl (stl (ps_rng st))). c \<le> x"
      using good by (blast dest: stl_sset)+
    consider (complete) "stages ! (k + 1) = complete" | (error) "stages ! (k + 1) = error"
      | (other) "stages ! (k + 1) \<noteq> complete" "stages ! (k + 1) \<noteq> error"
      by blast
    then show ?thesis
    proof cases
      case complete
      from next_file [of "st\<lparr>processedFiles := setFileProgress index 0 complete (processedFiles st),
                      generatedResults := generatedResults st @
                        [fst (generateMockResult plat (clock index) (files ! index) index
                                (stl (ps_rng st)))],
                      ps_rng := snd (generateMockResult plat (clock index) (files ! index) index
                                (stl (ps_rng st)))\<rparr>"]
        generateMockResult_rng_bound [OF good1]
      obtain fuel ps where "processFile fuel plat clock files (index + 1)
          (st\<lparr>processedFiles := setFileProgress index 0 complete (processedFiles st),
                      generatedResults := generatedResults st @
                        [fst (generateMockResult plat (clock index) (files ! index) index
                                (stl (ps_rng st)))],
                      ps_rng := snd (generateMockResult plat (clock index) (files ! index) index
                                (stl (ps_rng st)))\<rparr>) = Some ps"
        by auto
      then have "updateProgress (Suc fuel) plat clock files index stages k p st = Some ps"
        unfolding updateProgress_step using over k1 complete by simp
      then show ?thesis by blast
    next
      case error
      from next_file [of "st\<lparr>processedFiles := setFileProgress index 0 error (processedFiles st),
                      ps_rng := stl (ps_rng st)\<rparr>"] good1
      obtain fuel ps where "processFile fuel plat clock files (index + 1)
          (st\<lparr>processedFiles := setFileProgress index 0 error (processedFiles st),
                      ps_rng := stl (ps_rng st)\<rparr>) = Some ps"
        by auto
      then have "updateProgress (Suc fuel) plat clock files index stages k p st = Some ps"
        unfolding updateProgress_step using over k1 error by simp
      then show ?thesis by blast
    next
      case other
      have "Suc (Suc k) < length stages"
        using stages_of_last [OF stages _ other] k by simp
      from next_stage [of "st\<lparr>processedFiles :=
                        setFileProgress index 0 (stages ! (k + 1)) (processedFiles st),
                      ps_rng := stl (stl (ps_rng st))\<rparr>", OF _ this] good2
      obtain fuel ps where "updateProgress fuel plat clock files index stages (k + 1) 0
          (st\<lparr>processedFiles :=
                        setFileProgress index 0 (stages ! (k + 1)) (processedFiles st),
                      ps_rng := stl (stl (ps_rng st))\<rparr>) = Some ps"
        by auto
      then have "updateProgress (Suc fuel) plat clock files index stages k p st = Some ps"
        unfolding updateProgress_step using over k1 other by simp
      then show ?thesis by blast
    qed
  qed
  have main: "\<exists>fuel ps. updateProgress fuel plat clock files index stages k p st = Some ps"
    if "\<forall>x \<in> sset (ps_rng st). c \<le> x" and "100 \<le> p + real n * (c * 15)" for n p st
    using that
  proof (induction n arbitrary: p st)
    case 0
    have "c \<le> shd (ps_rng st)"
      using 0(1) shd_sset by blast
    with 0(2) c have "\<not> p + shd (ps_rng st) * 15 < 100"
      by simp
    with 0(1) show ?case by (rule advance)
  next
    case (Suc n)
    have r: "c \<le> shd (ps_rng st)"
      using Suc.prems(1) shd_sset by blast
    have good2: "\<forall>x \<in> sset (stl (stl (ps_rng st))). c \<le> x"
      using Suc.prems(1) by (blast dest: stl_sset)
    show ?case
    proof (cases "p + shd (ps_rng st) * 15 < 100")
      case True
      have "p + real (Suc n) * (c * 15) \<le> (p + shd (ps_rng st) * 15) + real n * (c * 15)"
        using r by (simp add: algebra_simps)
      with Suc.prems(2) have bound: "100 \<le> (p + shd (ps_rng st) * 15) + real n * (c * 15)"
        by linarith
      from Suc.IH [of "st\<lparr>processedFiles :=
                        setFileProgress index (p + shd (ps_rng st) * 15) (stages ! k)
                          (processedFiles st),
                      ps_rng := stl (stl (ps_rng st))\<rparr>", OF _ bound] good2
      obtain fuel ps where "updateProgress fuel plat clock files index stages k
          (p + shd (ps_rng st) * 15)
          (st\<lparr>processedFiles :=
                        setFileProgress index (p + shd (ps_rng st) * 15) (stages ! k)
                          (processedFiles st),
                      ps_rng := stl (stl (ps_rng st))\<rparr>) = Some ps"
        by auto
      then have "updateProgress (Suc fuel) plat clock files index stages k p st = Some ps"
        unfolding updateProgress_step using True stages_of_not_last [OF stages k] by simp
      then show ?thesis by blast
    next
      case False
      with Suc.prems(1) show ?thesis by (rule advance)
    qed
  qed
  from good0 bound0 show ?thesis by (rule main)
qed

lemma draws_reach_100:
  fixes c p :: real
  assumes "0 < c"
  shows "\<exists>n. 100 \<le> p + real n * (c * 15)"
proof -
  obtain n where "(100 - p) / (c * 15) \<le> real n"
    using real_arch_simple by blast
  then have "100 - p \<le> real n * (c * 15)"
    using assms by (simp add: pos_divide_le_eq)
  then show ?thesis
    by (intro exI [of _ n]) linarith
qed

lemma updateProgress_returns:
  fixes c :: real
  assumes c: "0 < c"
    and next_file: "\<And>st. \<forall>x \<in> sset (ps_rng st). c \<le> x \<Longrightarrow>
          \<exists>fuel ps. processFile fuel plat clock files (index + 1) st = Some ps"
    and stages: "stages \<in> {stages_of True, stages_of False}"
  shows "Suc k < length stages \<Longrightarrow> \<forall>x \<in> sset (ps_rng st). c \<le> x \<Longrightarrow>
         \<exists>fuel ps. updateProgress fuel plat clock files index stages k p st = Some ps"
proof (induction "length stages - k" arbitrary: k p st rule: less_induct)
  case less
  obtain n where n: "100 \<le> p + real n * (c * 15)"
    using draws_reach_100 [OF c] by blast
  have next_stage: "\<exists>fuel ps. updateProgress fuel plat clock files index stages (k + 1) 0 st' = Some ps"
    if "\<forall>x \<in> sset (ps_rng st'). c \<le> x" and "Suc (Suc k) < length stages" for st'
    using less.hyps [of "k + 1" st' 0] that less.prems(1) by simp
  show ?case
    by (rule updateProgress_stage_returns
          [OF c next_file next_stage stages less.prems(1) less.prems(2) n])
qed

lemma processFile_returns:
  fixes c :: real
  assumes c: "0 < c"
  shows "\<forall>x \<in> sset (ps_rng st). c \<le> x \<Longrightarrow>
         \<exists>fuel ps. processFile fuel plat clock files index st = Some ps"
proof (induction "length files - index" arbitrary: index st rule: less_induct)
  case less
  show ?case
  proof (cases "length files \<le> index")
    case True
    then have "processFile (Suc 0) plat clock files index st = Some st"
      by simp
    then show ?thesis by blast
  next
    case False
    have next_file: "\<exists>fuel ps. processFile fuel plat clock files (index + 1) st' = Some ps"
      if "\<forall>x \<in> sset (ps_rng st'). c \<le> x" for st'
      using less.hyps [of "index + 1" st'] that False by simp
    have good1: "\<forall>x \<in> sset (ps_rng (st\<lparr>ps_rng := stl (ps_rng st)\<rparr>)). c \<le> x"
      using less.prems by (auto dest: stl_sset)
    have "\<exists>fuel ps. updateProgress fuel plat clock files index
            (stages_of (shd (ps_rng st) < 0.1)) 0 0 (st\<lparr>ps_rng := stl (ps_rng st)\<rparr>) = Some ps"
      by (rule updateProgress_returns [OF c next_file _ _ good1])
         (auto simp: stages_of_def)
    then obtain fuel ps where "updateProgress fuel plat clock files index
            (stages_of (shd (ps_rng st) < 0.1)) 0 0 (st\<lparr>ps_rng := stl (ps_rng st)\<rparr>) = Some ps"
      by blast
    then have "processFile (Suc fuel) plat clock files index st = Some ps"
      unfolding processFile_step using False by simp
    then show ?thesis by blast
  qed
qed

lemma run_processing_returns:
  fixes c :: real
  assumes "0 < c" "\<forall>x \<in> sset g. c \<le> x"
  shows "\<exists>fuel ps. run_processing fuel plat clock files g = Some ps"
  unfolding run_processing_def
  by (rule processFile_returns [OF assms(1)]) (simp add: assms(2))


subsection \<open>What a run hands to the completion callback\<close>

lemma generateMockResult_id: "result_id (fst (generateMockResult plat now f i g)) = file_id f"
  by (simp add: generateMockResult_def Let_def split_beta)

lemma filter_nth:
  "filter P xs = map ((!) xs) (filter (\<lambda>i. P (xs ! i)) [0 ..< length xs])"
proof -
  have "filter P (map ((!) xs) [0 ..< length xs]) =
        map ((!) xs) (filter (\<lambda>i. P (xs ! i)) [0 ..< length xs])"
    by (simp add: filter_map o_def)
  then show ?thesis
    by (simp add: map_nth)
qed

lemma list_all2_map_eq:
  "list_all2 (\<lambda>x y. f x = h y) xs ys \<Longrightarrow> map f xs = map h ys"
  by (induction rule: list_all2_induct) simp_all

lemma file_id_initialProcessedFiles:
  "i < length files \<Longrightarrow> file_id (initialProcessedFiles files ! i) = file_id (files ! i)"
  by (simp add: initialProcessedFiles_def)

text \<open>
  Claim C10. A run of the processing effect finishes whenever the draws of
  \<^verbatim>\<open>Math.random()\<close> are bounded away from 0. When it finishes, every file has reached the
  stage \<^verbatim>\<open>complete\<close> or the stage \<^verbatim>\<open>error\<close>; the results handed to the completion callback
  are, in file order, one result for each file that reached \<^verbatim>\<open>complete\<close>, generated from
  that file and its index, and none for a file that reached \<^verbatim>\<open>error\<close>; the callback appends
  them to the existing results and adds the number of completed files to the processed
  total.
\<close>

theorem processing_results_of_completed_files:
  fixes c :: real
  shows
  "(0 < c \<and> (\<forall>x \<in> sset g. c \<le> x) \<longrightarrow>
      (\<exists>fuel ps. run_processing fuel plat clock files g = Some ps)) \<and>
   (run_processing fuel plat clock files g = Some ps \<longrightarrow>
      length (processedFiles ps) = length files \<and>
      (\<forall>i < length files.
         file_id (processedFiles ps ! i) = file_id (files ! i) \<and>
         file_status (processedFiles ps ! i) \<in> {complete, error}) \<and>
      list_all2
        (\<lambda>res i. \<exists>g'. res = fst (generateMockResult plat (clock i)
                                   (initialProcessedFiles files ! i) i g'))
        (generatedResults ps)
        (filter (\<lambda>i. file_status (processedFiles ps ! i) = complete) [0 ..< length files]) \<and>
      map result_id (generatedResults ps) =
        map file_id (filter (\<lambda>f. file_status f = complete) (processedFiles ps)) \<and>
      studentResults (handleProcessingComplete (generatedResults ps) st) =
        studentResults st @ generatedResults ps \<and>
      totalProcessed (handleProcessingComplete (generatedResults ps) st) =
        totalProcessed st + length (filter (\<lambda>f. file_status f = complete) (processedFiles ps)))"
proof (intro conjI impI)
  assume "0 < c \<and> (\<forall>x \<in> sset g. c \<le> x)"
  then show "\<exists>fuel ps. run_processing fuel plat clock files g = Some ps"
    using run_processing_returns [of c g plat clock files] by blast
next
  assume run: "run_processing fuel plat clock files g = Some ps"
  define files0 where "files0 = initialProcessedFiles files"
  define st0 where
    "st0 = \<lparr> processedFiles = files0, generatedResults = [], ps_rng = g \<rparr>"
  have len0: "length files0 = length files"
    by (simp add: files0_def initialProcessedFiles_def)
  from run have "processFile fuel plat clock files0 0 st0 = Some ps"
    by (simp add: run_processing_def files0_def st0_def)
  from processFile_updateProgress_run [of fuel plat clock files0, THEN conjunct1,
      rule_format, OF this]
  have len: "length (processedFiles ps) = length files"
    and each: "\<forall>i < length files.
         file_id (processedFiles ps ! i) = file_id (files0 ! i) \<and>
         file_status (processedFiles ps ! i) \<in> {complete, error}"
    and gen: "list_all2
        (\<lambda>res i. \<exists>g'. res = fst (generateMockResult plat (clock i) (files0 ! i) i g'))
        (generatedResults ps)
        (filter (\<lambda>i. file_status (processedFiles ps ! i) = complete) [0 ..< length files])"
    by (auto simp: st0_def len0)
  show "length (processedFiles ps) = length files"
    by (rule len)
  show ids: "\<forall>i < length files.
         file_id (processedFiles ps ! i) = file_id (files ! i) \<and>
         file_status (processedFiles ps ! i) \<in> {complete, error}"
    using each by (simp add: files0_def file_id_initialProcessedFiles)
  show "list_all2
        (\<lambda>res i. \<exists>g'. res = fst (generateMockResult plat (clock i)
                                   (initialProcessedFiles files ! i) i g'))
        (generatedResults ps)
        (filter (\<lambda>i. file_status (processedFiles ps ! i) = complete) [0 ..< length files])"
    using gen by (simp add: files0_def)
  have "list_all2 (\<lambda>res i. result_id res = file_id (processedFiles ps ! i))
        (generatedResults ps)
        (filter (\<lambda>i. file_status (processedFiles ps ! i) = complete) [0 ..< length files])"
    using gen
  proof (rule list.rel_mono_strong)
    fix res i
    assume "i \<in> set (filter (\<lambda>i. file_status (processedFiles ps ! i) = complete)
                       [0 ..< length files])"
      and "\<exists>g'. res = fst (generateMockResult plat (clock i) (files0 ! i) i g')"
    then show "result_id res = file_id (processedFiles ps ! i)"
      using each by (auto simp: generateMockResult_id)
  qed
  then have "map result_id (generatedResults ps) =
      map (\<lambda>i. file_id (processedFiles ps ! i))
        (filter (\<lambda>i. file_status (processedFiles ps ! i) = complete) [0 ..< length files])"
    by (rule list_all2_map_eq)
  also have "\<dots> = map file_id (filter (\<lambda>f. file_status f = complete) (processedFiles ps))"
    by (subst (2) filter_nth) (simp add: len)
  finally show results: "map result_id (generatedResults ps) =
        map file_id (filter (\<lambda>f. file_status f = complete) (processedFiles ps))" .
  show "studentResults (handleProcessingComplete (generatedResults ps) st) =
        studentResults st @ generatedResults ps"
    by (simp add: handleProcessingComplete_def)
  have "length (generatedResults ps) =
        length (filter (\<lambda>f. file_status f = complete) (processedFiles ps))"
    using arg_cong [OF results, of length] by simp
  then show "totalProcessed (handleProcessingComplete (generatedResults ps) st) =
        totalProcessed st + length (filter (\<lambda>f. file_status f = complete) (processedFiles ps))"
    by (simp add: handleProcessingComplete_def)
qed

text \<open>
  A run on two files: the first draw, 0.05, sends file \<open>a\<close> to the stage \<^verbatim>\<open>error\<close>, every
  later draw is 0.99, and file \<open>b\<close> reaches \<^verbatim>\<open>complete\<close>. The run takes 38 timer callbacks.
\<close>

lemma run_processing_example:
  "run_processing 38 utc_platform (\<lambda>i. 0) [sample_file ''a'', sample_file ''b'']
     ((1 / 20) ## sconst (99 / 100)) =
   Some \<lparr> processedFiles =
            [\<lparr> file_id = ''a'', preview = ''blob:a'', file_progress = 0, file_status = error \<rparr>,
             \<lparr> file_id = ''b'', preview = ''blob:b'', file_progress = 0,
               file_status = complete \<rparr>],
          generatedResults =
            [fst (generateMockResult utc_platform 0
                    \<lparr> file_id = ''b'', preview = ''blob:b'', file_progress = 0,
                      file_status = uploading \<rparr> 1 (sconst (99 / 100)))],
          ps_rng = snd (generateMockResult utc_platform 0
                    \<lparr> file_id = ''b'', preview = ''blob:b'', file_progress = 0,
                      file_status = uploading \<rparr> 1 (sconst (99 / 100))) \<rparr>"
  by (simp add: run_processing_def initialProcessedFiles_def sample_file_def
        processFile_step processFile_numeral updateProgress_numeral stages_of_def
        setFileProgress_two
      del: processFile.simps updateProgress.simps)

theorem processing_results_of_completed_files_witness:
  "(\<exists>fuel ps. run_processing fuel utc_platform (\<lambda>i. 0) [sample_file ''a'', sample_file ''b'']
                 ((1 / 20) ## sconst (99 / 100)) = Some ps) \<and>
   map file_status (processedFiles (the (run_processing 38 utc_platform (\<lambda>i. 0)
      [sample_file ''a'', sample_file ''b''] ((1 / 20) ## sconst (99 / 100))))) =
     [error, complete] \<and>
   map result_id (generatedResults (the (run_processing 38 utc_platform (\<lambda>i. 0)
      [sample_file ''a'', sample_file ''b''] ((1 / 20) ## sconst (99 / 100))))) = [''b''] \<and>
   totalProcessed (handleProcessingComplete
      (generatedResults (the (run_processing 38 utc_platform (\<lambda>i. 0)
         [sample_file ''a'', sample_file ''b''] ((1 / 20) ## sconst (99 / 100)))))
      (initialAppState\<lparr>totalProcessed := 5\<rparr>)) = 6"
proof -
  define ps where "ps = the (run_processing 38 utc_platform (\<lambda>i. 0)
      [sample_file ''a'', sample_file ''b''] ((1 / 20) ## sconst (99 / 100)))"
  have run: "run_processing 38 utc_platform (\<lambda>i. 0) [sample_file ''a'', sample_file ''b'']
      ((1 / 20) ## sconst (99 / 100)) = Some ps"
    by (simp add: ps_def run_processing_example)
  have files: "processedFiles ps =
      [\<lparr> file_id = ''a'', preview = ''blob:a'', file_progress = 0, file_status = error \<rparr>,
       \<lparr> file_id = ''b'', preview = ''blob:b'', file_progress = 0, file_status = complete \<rparr>]"
    by (simp add: ps_def run_processing_example)
  have draws: "0 < (1 / 20 :: real) \<and>
      (\<forall>x \<in> sset ((1 / 20) ## sconst (99 / 100)). (1 / 20 :: real) \<le> x)"
    by simp
  note fact = processing_results_of_completed_files
    [where c = "1 / 20" and g = "(1 / 20) ## sconst (99 / 100)" and plat = utc_platform
       and clock = "\<lambda>i. 0" and files = "[sample_file ''a'', sample_file ''b'']"
       and fuel = 38 and ps = ps and st = "initialAppState\<lparr>totalProcessed := 5\<rparr>"]
  from fact draws
  have 1: "\<exists>fuel ps. run_processing fuel utc_platform (\<lambda>i. 0)
      [sample_file ''a'', sample_file ''b''] ((1 / 20) ## sconst (99 / 100)) = Some ps"
    by blast
  from fact run
  have 2: "map result_id (generatedResults ps) =
        map file_id (filter (\<lambda>f. file_status f = complete) (processedFiles ps))"
    and 3: "totalProcessed (handleProcessingComplete (generatedResults ps)
          (initialAppState\<lparr>totalProcessed := 5\<rparr>)) =
        totalProcessed (initialAppState\<lparr>totalProcessed := 5\<rparr>) +
        length (filter (\<lambda>f. file_status f = complete) (processedFiles ps))"
    by blast+
  show ?thesis
    unfolding ps_def [symmetric]
    using 1 2 3 by (simp add: files)
qed

end
